theory Spec2Isabelle
  imports Main "HOL-Library.Char_ord" "HOL-Library.List_Lexorder" "HOL-Library.Product_Lexorder"
    "HOL-Library.Multiset"
begin

section \<open>Python strings and date-times\<close>

text \<open>
  A Python \<open>str\<close> is modelled as a HOL \<open>string\<close> whose characters are the code points
  below 256.  On that range \<open>str.lower\<close> maps \<open>A\<close>..\<open>Z\<close> and the
  upper-case letters U+00C0..U+00DE (all but the multiplication sign U+00D7) to the code
  point 32 above, and \<open>str.strip\<close> removes the characters for which \<open>str.isspace\<close>
  holds: 9..13, 28..32, 133 and 160.  With \<open>Char_ord\<close> and \<open>List_Lexorder\<close> the order
  on \<open>string\<close> is the lexicographic order by code point, which is how Python compares
  strings.  Identifiers of arbitrary code points, where \<open>str.lower\<close> depends on the
  context of a character, are treated in their own section below.
\<close>

definition char_lower :: "char \<Rightarrow> char" where
  "char_lower c =
     (let n = (of_char c :: nat)
      in if (65 \<le> n \<and> n \<le> 90) \<or> (192 \<le> n \<and> n \<le> 222 \<and> n \<noteq> 215)
         then char_of (n + 32) else c)"

definition str_lower :: "string \<Rightarrow> string" where
  "str_lower s = map char_lower s"

definition char_isspace :: "char \<Rightarrow> bool" where
  "char_isspace c =
     (let n = (of_char c :: nat)
      in (9 \<le> n \<and> n \<le> 13) \<or> (28 \<le> n \<and> n \<le> 32) \<or> n = 133 \<or> n = 160)"

definition str_strip :: "string \<Rightarrow> string" where
  "str_strip s = rev (dropWhile char_isspace (rev (dropWhile char_isspace s)))"

text \<open>\<open>full.startswith(p)\<close>\<close>

fun str_startswith :: "'a list \<Rightarrow> 'a list \<Rightarrow> bool" where
  "str_startswith s [] = True"
| "str_startswith [] (p # ps) = False"
| "str_startswith (c # s) (p # ps) = (c = p \<and> str_startswith s ps)"

text \<open>
  A naive \<open>datetime\<close> is its calendar date (year, month, day) followed by its time of day
  (hour, minute, second, microsecond).  Python compares two naive date-times field by
  field in that order, which is the lexicographic order of \<open>Product_Lexorder\<close>;
  \<open>datetime.date()\<close> is the first component.
\<close>

type_synonym date = "nat \<times> nat \<times> nat"
type_synonym datetime = "date \<times> nat \<times> nat \<times> nat \<times> nat"


section \<open>Exceptions\<close>

text \<open>
  The exception classes the code raises; messages are not modelled.  \<open>Exception\<close> is the
  bare base class the handlers re-raise.
\<close>

datatype error = ValueError | KeyError | ConnectionError | Exception

section \<open>task.py: the Task class\<close>

text \<open>
  The fields carry the types of the constructor's annotations: \<open>str\<close> and \<open>datetime\<close>.
\<close>

record task =
  task_id :: string
  title :: string
  description :: string
  due_date :: datetime
  priority :: string
  status :: string
  created_at :: datetime

definition VALID_PRIORITIES :: "string list" where
  "VALID_PRIORITIES = [''Low'', ''Medium'', ''High'']"

definition VALID_STATUSES :: "string list" where
  "VALID_STATUSES = [''Pending'', ''In Progress'', ''Completed'']"

text \<open>
  \<open>Task.__init__\<close>: plain assignments to the private attributes.  \<open>now\<close> is the reading
  of \<open>datetime.now()\<close>; an omitted \<open>status\<close> or \<open>created_at\<close> argument is \<open>None\<close>.  The
  result is a sum so that a failure of construction could be expressed; the body has no
  \<open>raise\<close>.
\<close>

definition Task_init ::
  "datetime \<Rightarrow> string \<Rightarrow> string \<Rightarrow> string \<Rightarrow> datetime \<Rightarrow> string \<Rightarrow> string option
     \<Rightarrow> datetime option \<Rightarrow> error + task" where
  "Task_init now tid ttl descr due prio stat created =
     Inr \<lparr> task_id = tid, title = ttl, description = descr, due_date = due,
           priority = prio,
           status = (case stat of None \<Rightarrow> ''Pending'' | Some s \<Rightarrow> s),
           created_at = (case created of None \<Rightarrow> now | Some c \<Rightarrow> c) \<rparr>"

text \<open>The property setters. There is none for \<open>task_id\<close> and \<open>created_at\<close>.\<close>

definition set_title :: "task \<Rightarrow> string \<Rightarrow> error + task" where
  "set_title t v =
     (if v = [] \<or> str_strip v = [] then Inl ValueError
      else Inr (t\<lparr>title := str_strip v\<rparr>))"

definition set_description :: "task \<Rightarrow> string \<Rightarrow> error + task" where
  "set_description t v = Inr (t\<lparr>description := (if v \<noteq> [] then v else [])\<rparr>)"

text \<open>The \<open>isinstance\<close> test of the \<open>due_date\<close> setter holds for every value of the type.\<close>

definition set_due_date :: "task \<Rightarrow> datetime \<Rightarrow> error + task" where
  "set_due_date t v = Inr (t\<lparr>due_date := v\<rparr>)"

definition set_priority :: "task \<Rightarrow> string \<Rightarrow> error + task" where
  "set_priority t v =
     (if v \<notin> set VALID_PRIORITIES then Inl ValueError else Inr (t\<lparr>priority := v\<rparr>))"

definition set_status :: "task \<Rightarrow> string \<Rightarrow> error + task" where
  "set_status t v =
     (if v \<notin> set VALID_STATUSES then Inl ValueError else Inr (t\<lparr>status := v\<rparr>))"

text \<open>
  The dictionary of \<open>to_dict\<close>, of a stored document and of an update: the seven keys the
  code reads or writes, each absent (\<open>None\<close>) or bound to a value of the field's type.
\<close>

record task_dict =
  d_task_id :: "string option"
  d_title :: "string option"
  d_description :: "string option"
  d_due_date :: "datetime option"
  d_priority :: "string option"
  d_status :: "string option"
  d_created_at :: "datetime option"

definition empty_dict :: task_dict where
  "empty_dict = \<lparr> d_task_id = None, d_title = None, d_description = None,
                   d_due_date = None, d_priority = None, d_status = None,
                   d_created_at = None \<rparr>"

definition to_dict :: "task \<Rightarrow> task_dict" where
  "to_dict t = \<lparr> d_task_id = Some (task_id t), d_title = Some (title t),
                 d_description = Some (description t), d_due_date = Some (due_date t),
                 d_priority = Some (priority t), d_status = Some (status t),
                 d_created_at = Some (created_at t) \<rparr>"

text \<open>
  \<open>Task.from_dict\<close>: \<open>data["k"]\<close> raises \<open>KeyError\<close> on a missing key,
  \<open>data.get("status", "Pending")\<close> and \<open>data.get("created_at")\<close> do not.
\<close>

definition from_dict :: "datetime \<Rightarrow> task_dict \<Rightarrow> error + task" where
  "from_dict now data =
     (case d_task_id data of None \<Rightarrow> Inl KeyError | Some tid \<Rightarrow>
      case d_title data of None \<Rightarrow> Inl KeyError | Some ttl \<Rightarrow>
      case d_description data of None \<Rightarrow> Inl KeyError | Some descr \<Rightarrow>
      case d_due_date data of None \<Rightarrow> Inl KeyError | Some due \<Rightarrow>
      case d_priority data of None \<Rightarrow> Inl KeyError | Some prio \<Rightarrow>
        Task_init now tid ttl descr due prio
          (Some (case d_status data of None \<Rightarrow> ''Pending'' | Some s \<Rightarrow> s))
          (d_created_at data))"

section \<open>validators.py\<close>

definition validate_title :: "string \<Rightarrow> error + string" where
  "validate_title ttl =
     (if ttl = [] \<or> str_strip ttl = [] then Inl ValueError else Inr (str_strip ttl))"

definition priority_map :: "(string \<times> string) list" where
  "priority_map = [(''low'', ''Low''), (''medium'', ''Medium''), (''high'', ''High'')]"

definition validate_priority :: "string \<Rightarrow> error + string" where
  "validate_priority prio =
     (let priority_lower = str_lower (str_strip prio)
      in case map_of priority_map priority_lower of
           Some v \<Rightarrow> Inr v
         | None \<Rightarrow>
             (case find (\<lambda>valid_priority. str_lower valid_priority = priority_lower)
                     [''Low'', ''Medium'', ''High''] of
                Some v \<Rightarrow> Inr v
              | None \<Rightarrow> Inl ValueError))"

definition status_map :: "(string \<times> string) list" where
  "status_map =
     [(''pending'', ''Pending''), (''in progress'', ''In Progress''),
      (''completed'', ''Completed'')]"

definition validate_status :: "string \<Rightarrow> error + string" where
  "validate_status stat =
     (let status_lower = str_lower (str_strip stat)
      in case map_of status_map status_lower of
           Some v \<Rightarrow> Inr v
         | None \<Rightarrow>
             (case find (\<lambda>valid_status. str_lower valid_status = status_lower)
                     [''Pending'', ''In Progress'', ''Completed''] of
                Some v \<Rightarrow> Inr v
              | None \<Rightarrow> Inl ValueError))"

definition validate_description :: "string option \<Rightarrow> string" where
  "validate_description descr =
     (case descr of
        None \<Rightarrow> []
      | Some d \<Rightarrow> if d \<noteq> [] \<and> str_strip d \<noteq> [] then str_strip d else [])"

section \<open>database_handler.py: the MongoDB collection and its handler\<close>

text \<open>
  The \<open>tasks\<close> collection is the list of its documents in natural order, holding the
  values as they were written (BSON keeps a date-time to the millisecond; that rounding
  is not modelled).  \<open>has_client\<close> says that \<open>connect\<close> has set \<open>_client\<close>,
  \<open>server_up\<close> that \<open>server_info()\<close> answers, \<open>op_fails\<close> that the server rejects the
  operations on the collection.  \<open>connect\<close> creates a unique index on \<open>task_id\<close>, so a
  write that would give two documents the same \<open>task_id\<close> raises \<open>DuplicateKeyError\<close>.
\<close>

record database_handler =
  has_client :: bool
  server_up :: bool
  op_fails :: bool
  documents :: "task_dict list"

datatype mongo_error = DuplicateKeyError | OperationFailure

definition is_connected :: "database_handler \<Rightarrow> bool" where
  "is_connected db = (has_client db \<and> server_up db)"

definition insert_one :: "database_handler \<Rightarrow> task_dict \<Rightarrow> mongo_error + task_dict list" where
  "insert_one db doc =
     (if op_fails db then Inl OperationFailure
      else if d_task_id doc \<in> set (map d_task_id (documents db)) then Inl DuplicateKeyError
      else Inr (documents db @ [doc]))"

definition find_all :: "database_handler \<Rightarrow> mongo_error + task_dict list" where
  "find_all db = (if op_fails db then Inl OperationFailure else Inr (documents db))"

text \<open>\<open>$set\<close>: every key of the update replaces the document's value for that key.\<close>

definition override :: "'a option \<Rightarrow> 'a option \<Rightarrow> 'a option" where
  "override old new = (case new of None \<Rightarrow> old | Some v \<Rightarrow> Some v)"

definition set_fields :: "task_dict \<Rightarrow> task_dict \<Rightarrow> task_dict" where
  "set_fields u d =
     \<lparr> d_task_id = override (d_task_id d) (d_task_id u),
       d_title = override (d_title d) (d_title u),
       d_description = override (d_description d) (d_description u),
       d_due_date = override (d_due_date d) (d_due_date u),
       d_priority = override (d_priority d) (d_priority u),
       d_status = override (d_status d) (d_status u),
       d_created_at = override (d_created_at d) (d_created_at u) \<rparr>"

text \<open>
  \<open>update_one({"task_id": tid}, {"$set": u})\<close> changes the first document whose \<open>task_id\<close>
  is \<open>tid\<close>; the result carries \<open>modified_count\<close>.  \<open>delete_one({"task_id": tid})\<close>
  removes that document; the result carries \<open>deleted_count\<close>.
\<close>

definition update_one ::
  "database_handler \<Rightarrow> string \<Rightarrow> task_dict \<Rightarrow> mongo_error + task_dict list \<times> nat" where
  "update_one db tid u =
     (if op_fails db then Inl OperationFailure
      else
        let before = takeWhile (\<lambda>d. d_task_id d \<noteq> Some tid) (documents db)
        in case dropWhile (\<lambda>d. d_task_id d \<noteq> Some tid) (documents db) of
             [] \<Rightarrow> Inr (documents db, 0)
           | d # after \<Rightarrow>
               let d' = set_fields u d
               in if d_task_id d' \<in> set (map d_task_id (before @ after))
                  then Inl DuplicateKeyError
                  else Inr (before @ d' # after, if d' = d then 0 else 1))"

definition delete_one ::
  "database_handler \<Rightarrow> string \<Rightarrow> mongo_error + task_dict list \<times> nat" where
  "delete_one db tid =
     (if op_fails db then Inl OperationFailure
      else
        let before = takeWhile (\<lambda>d. d_task_id d \<noteq> Some tid) (documents db)
        in case dropWhile (\<lambda>d. d_task_id d \<noteq> Some tid) (documents db) of
             [] \<Rightarrow> Inr (documents db, 0)
           | d # after \<Rightarrow> Inr (before @ after, 1))"

text \<open>
  The methods of \<open>DatabaseHandler\<close>, with the prefix \<open>db_\<close> where \<open>TaskManager\<close> has a
  method of the same name.  Each returns what the method returns or raises, together with
  the handler after the call.
\<close>

definition insert_task ::
  "database_handler \<Rightarrow> task \<Rightarrow> (error + bool) \<times> database_handler" where
  "insert_task db t =
     (if \<not> is_connected db then (Inl ConnectionError, db)
      else case insert_one db (to_dict t) of
             Inr docs \<Rightarrow> (Inr True, db\<lparr>documents := docs\<rparr>)
           | Inl DuplicateKeyError \<Rightarrow> (Inl ValueError, db)
           | Inl OperationFailure \<Rightarrow> (Inl Exception, db))"

text \<open>
  The loop of \<open>get_all_tasks\<close> over the cursor; \<open>clock i\<close> is what \<open>datetime.now()\<close> reads
  while document \<open>i\<close> is turned into a task.
\<close>

fun scan_results ::
  "(nat \<Rightarrow> datetime) \<Rightarrow> nat \<Rightarrow> task_dict list \<Rightarrow> task list \<Rightarrow> error + task list" where
  "scan_results clock i [] tasks = Inr tasks"
| "scan_results clock i (result # results) tasks =
     (case from_dict (clock i) result of
        Inl e \<Rightarrow> Inl e
      | Inr t \<Rightarrow> scan_results clock (Suc i) results (tasks @ [t]))"

definition db_get_all_tasks ::
  "(nat \<Rightarrow> datetime) \<Rightarrow> database_handler \<Rightarrow> error + task list" where
  "db_get_all_tasks clock db =
     (if \<not> is_connected db then Inl ConnectionError
      else case find_all db of
             Inl e \<Rightarrow> Inl Exception
           | Inr results \<Rightarrow>
               (case scan_results clock 0 results [] of
                  Inl e \<Rightarrow> Inl Exception
                | Inr tasks \<Rightarrow> Inr tasks))"

definition db_update_task ::
  "database_handler \<Rightarrow> string \<Rightarrow> task_dict \<Rightarrow> (error + bool) \<times> database_handler" where
  "db_update_task db tid update_data =
     (if \<not> is_connected db then (Inl ConnectionError, db)
      else case update_one db tid update_data of
             Inl e \<Rightarrow> (Inl Exception, db)
           | Inr (docs, modified_count) \<Rightarrow>
               (Inr (modified_count > 0), db\<lparr>documents := docs\<rparr>))"

definition db_delete_task ::
  "database_handler \<Rightarrow> string \<Rightarrow> (error + bool) \<times> database_handler" where
  "db_delete_task db tid =
     (if \<not> is_connected db then (Inl ConnectionError, db)
      else case delete_one db tid of
             Inl e \<Rightarrow> (Inl Exception, db)
           | Inr (docs, deleted_count) \<Rightarrow>
               (Inr (deleted_count > 0), db\<lparr>documents := docs\<rparr>))"

section \<open>task_manager.py: the TaskManager class\<close>

text \<open>
  Task objects are shared between the dictionary \<open>_tasks\<close> and the list \<open>_task_list\<close>
  and are mutated in place, so both hold references into \<open>objects\<close>, the Task objects
  allocated so far: the reference \<open>r\<close> stands for the object \<open>objects ! r\<close>.  A Python
  dictionary keeps its keys in insertion order: \<open>_tasks\<close> is the list of its items.
\<close>

record task_manager =
  db_handler :: database_handler
  tasks_dict :: "(string \<times> nat) list"
  task_list :: "nat list"
  objects :: "task list"

definition TaskManager_init :: "database_handler \<Rightarrow> task_manager" where
  "TaskManager_init db = \<lparr> db_handler = db, tasks_dict = [], task_list = [], objects = [] \<rparr>"

text \<open>\<open>d[k] = v\<close>: an existing key keeps its place, a new key goes last.\<close>

fun dict_setitem :: "(string \<times> 'v) list \<Rightarrow> string \<Rightarrow> 'v \<Rightarrow> (string \<times> 'v) list" where
  "dict_setitem [] k v = [(k, v)]"
| "dict_setitem ((k', v') # d) k v =
     (if k' = k then (k, v) # d else (k', v') # dict_setitem d k v)"

text \<open>\<open>del d[k]\<close> for a key that is present.\<close>

definition dict_delitem :: "(string \<times> 'v) list \<Rightarrow> string \<Rightarrow> (string \<times> 'v) list" where
  "dict_delitem d k = filter (\<lambda>(k', v). k' \<noteq> k) d"

text \<open>The loop of \<open>load_tasks_from_db\<close>; each scanned task is a new object.\<close>

fun load_loop :: "task list \<Rightarrow> task_manager \<Rightarrow> task_manager" where
  "load_loop [] m = m"
| "load_loop (t # ts) m =
     load_loop ts
       (m\<lparr> objects := objects m @ [t],
           tasks_dict := dict_setitem (tasks_dict m) (task_id t) (length (objects m)),
           task_list := task_list m @ [length (objects m)] \<rparr>)"

text \<open>
  \<open>load_tasks_from_db\<close> reads the store first; the handler catches every exception of
  the read and returns \<open>False\<close>.
\<close>

definition load_tasks_from_db ::
  "(nat \<Rightarrow> datetime) \<Rightarrow> task_manager \<Rightarrow> (error + bool) \<times> task_manager" where
  "load_tasks_from_db clock m =
     (case db_get_all_tasks clock (db_handler m) of
        Inl e \<Rightarrow> (Inr False, m)
      | Inr ts \<Rightarrow> (Inr True, load_loop ts (m\<lparr>tasks_dict := [], task_list := []\<rparr>)))"

text \<open>
  \<open>add_task\<close>.  \<open>now\<close> is the reading of the clock, \<open>new_id\<close> the string of the generated
  UUID, \<open>stat\<close> is \<open>None\<close> when the status argument is omitted.  The result is the
  reference of the created task.  The new object is entered into \<open>objects\<close> when it is
  cached; after a failed insert nothing refers to it.
\<close>

definition add_task ::
  "datetime \<Rightarrow> string \<Rightarrow> task_manager \<Rightarrow> string \<Rightarrow> string \<Rightarrow> datetime \<Rightarrow> string
     \<Rightarrow> string option \<Rightarrow> (error + nat) \<times> task_manager" where
  "add_task now new_id m ttl descr due prio stat =
     (case validate_title ttl of Inl e \<Rightarrow> (Inl e, m) | Inr ttl' \<Rightarrow>
      let descr' = validate_description (Some descr) in
      case validate_priority prio of Inl e \<Rightarrow> (Inl e, m) | Inr prio' \<Rightarrow>
      case validate_status (case stat of None \<Rightarrow> ''Pending'' | Some s \<Rightarrow> s) of
        Inl e \<Rightarrow> (Inl e, m) | Inr stat' \<Rightarrow>
      case Task_init now new_id ttl' descr' due prio' (Some stat') None of
        Inl e \<Rightarrow> (Inl e, m) | Inr t \<Rightarrow>
      case insert_task (db_handler m) t of
        (Inl ValueError, db') \<Rightarrow> (Inl ValueError, m\<lparr>db_handler := db'\<rparr>)
      | (Inl e, db') \<Rightarrow> (Inl Exception, m\<lparr>db_handler := db'\<rparr>)
      | (Inr ok, db') \<Rightarrow>
          (Inr (length (objects m)),
           m\<lparr> db_handler := db',
               objects := objects m @ [t],
               tasks_dict := dict_setitem (tasks_dict m) new_id (length (objects m)),
               task_list := task_list m @ [length (objects m)] \<rparr>))"

text \<open>The partial-match loop of \<open>get_task\<close> over \<open>self._tasks.items()\<close>.\<close>

fun scan_prefix :: "string \<Rightarrow> (string \<times> nat) list \<Rightarrow> nat option" where
  "scan_prefix task_id_lower [] = None"
| "scan_prefix task_id_lower ((full_id, r) # items) =
     (if str_startswith (str_lower full_id) task_id_lower then Some r
      else scan_prefix task_id_lower items)"

definition get_task :: "task_manager \<Rightarrow> string \<Rightarrow> nat option" where
  "get_task m tid =
     (case map_of (tasks_dict m) tid of
        Some r \<Rightarrow> Some r
      | None \<Rightarrow> scan_prefix (str_lower tid) (tasks_dict m))"

definition get_all_tasks :: "task_manager \<Rightarrow> nat list" where
  "get_all_tasks m = task_list m"

definition get_task_count :: "task_manager \<Rightarrow> nat" where
  "get_task_count m = length (task_list m)"

text \<open>
  The five optional fields of \<open>update_task\<close>, in the order of the source.  Each step
  works on the live object \<open>t\<close> and on \<open>update_data\<close>; a validator or a setter that
  raises does so before the assignment, so a failing step leaves both as they were.
\<close>

definition upd_title :: "string option \<Rightarrow> task \<times> task_dict \<Rightarrow> error + task \<times> task_dict" where
  "upd_title arg tu =
     (case arg of
        None \<Rightarrow> Inr tu
      | Some x \<Rightarrow>
          (case validate_title x of
             Inl e \<Rightarrow> Inl e
           | Inr v \<Rightarrow>
               (case set_title (fst tu) v of
                  Inl e \<Rightarrow> Inl e
                | Inr t' \<Rightarrow> Inr (t', (snd tu)\<lparr>d_title := Some (title t')\<rparr>))))"

definition upd_description ::
  "string option \<Rightarrow> task \<times> task_dict \<Rightarrow> error + task \<times> task_dict" where
  "upd_description arg tu =
     (case arg of
        None \<Rightarrow> Inr tu
      | Some x \<Rightarrow>
          (case set_description (fst tu) (validate_description (Some x)) of
             Inl e \<Rightarrow> Inl e
           | Inr t' \<Rightarrow> Inr (t', (snd tu)\<lparr>d_description := Some (description t')\<rparr>)))"

definition upd_due_date ::
  "datetime option \<Rightarrow> task \<times> task_dict \<Rightarrow> error + task \<times> task_dict" where
  "upd_due_date arg tu =
     (case arg of
        None \<Rightarrow> Inr tu
      | Some x \<Rightarrow>
          (case set_due_date (fst tu) x of
             Inl e \<Rightarrow> Inl e
           | Inr t' \<Rightarrow> Inr (t', (snd tu)\<lparr>d_due_date := Some x\<rparr>)))"

definition upd_priority ::
  "string option \<Rightarrow> task \<times> task_dict \<Rightarrow> error + task \<times> task_dict" where
  "upd_priority arg tu =
     (case arg of
        None \<Rightarrow> Inr tu
      | Some x \<Rightarrow>
          (case validate_priority x of
             Inl e \<Rightarrow> Inl e
           | Inr v \<Rightarrow>
               (case set_priority (fst tu) v of
                  Inl e \<Rightarrow> Inl e
                | Inr t' \<Rightarrow> Inr (t', (snd tu)\<lparr>d_priority := Some (priority t')\<rparr>))))"

definition upd_status :: "string option \<Rightarrow> task \<times> task_dict \<Rightarrow> error + task \<times> task_dict" where
  "upd_status arg tu =
     (case arg of
        None \<Rightarrow> Inr tu
      | Some x \<Rightarrow>
          (case validate_status x of
             Inl e \<Rightarrow> Inl e
           | Inr v \<Rightarrow>
               (case set_status (fst tu) v of
                  Inl e \<Rightarrow> Inl e
                | Inr t' \<Rightarrow> Inr (t', (snd tu)\<lparr>d_status := Some (status t')\<rparr>))))"

text \<open>
  The field updates of \<open>update_task\<close> in sequence: the object as the sequence leaves it,
  with the exception that stopped it or the finished \<open>update_data\<close>.
\<close>

definition apply_updates ::
  "task \<Rightarrow> string option \<Rightarrow> string option \<Rightarrow> datetime option \<Rightarrow> string option
     \<Rightarrow> string option \<Rightarrow> (error + task_dict) \<times> task" where
  "apply_updates t ttl descr due prio stat =
     (case upd_title ttl (t, empty_dict) of Inl e \<Rightarrow> (Inl e, t) | Inr (t1, u1) \<Rightarrow>
      case upd_description descr (t1, u1) of Inl e \<Rightarrow> (Inl e, t1) | Inr (t2, u2) \<Rightarrow>
      case upd_due_date due (t2, u2) of Inl e \<Rightarrow> (Inl e, t2) | Inr (t3, u3) \<Rightarrow>
      case upd_priority prio (t3, u3) of Inl e \<Rightarrow> (Inl e, t3) | Inr (t4, u4) \<Rightarrow>
      case upd_status stat (t4, u4) of Inl e \<Rightarrow> (Inl e, t4) | Inr (t5, u5) \<Rightarrow>
        (Inr u5, t5))"

definition update_task ::
  "task_manager \<Rightarrow> string \<Rightarrow> string option \<Rightarrow> string option \<Rightarrow> datetime option
     \<Rightarrow> string option \<Rightarrow> string option \<Rightarrow> (error + bool) \<times> task_manager" where
  "update_task m tid ttl descr due prio stat =
     (case get_task m tid of
        None \<Rightarrow> (Inr False, m)
      | Some r \<Rightarrow>
          let full_task_id = task_id (objects m ! r)
          in case apply_updates (objects m ! r) ttl descr due prio stat of
               (Inl e, t') \<Rightarrow> (Inl e, m\<lparr>objects := (objects m)[r := t']\<rparr>)
             | (Inr update_data, t') \<Rightarrow>
                 let m' = m\<lparr>objects := (objects m)[r := t']\<rparr>
                 in if update_data \<noteq> empty_dict
                    then case db_update_task (db_handler m') full_task_id update_data of
                           (Inl e, db') \<Rightarrow> (Inl Exception, m'\<lparr>db_handler := db'\<rparr>)
                         | (Inr modified, db') \<Rightarrow> (Inr True, m'\<lparr>db_handler := db'\<rparr>)
                    else (Inr True, m'))"

definition mark_completed :: "task_manager \<Rightarrow> string \<Rightarrow> (error + bool) \<times> task_manager" where
  "mark_completed m tid = update_task m tid None None None None (Some ''Completed'')"

text \<open>
  \<open>delete_task\<close>.  \<open>del self._tasks[full_task_id]\<close> raises \<open>KeyError\<close> for a missing key,
  inside the \<open>try\<close>, after the store has deleted.
\<close>

definition delete_task :: "task_manager \<Rightarrow> string \<Rightarrow> (error + bool) \<times> task_manager" where
  "delete_task m tid =
     (case get_task m tid of
        None \<Rightarrow> (Inr False, m)
      | Some r \<Rightarrow>
          let full_task_id = task_id (objects m ! r)
          in case db_delete_task (db_handler m) full_task_id of
               (Inl e, db') \<Rightarrow> (Inl Exception, m\<lparr>db_handler := db'\<rparr>)
             | (Inr deleted, db') \<Rightarrow>
                 if full_task_id \<notin> set (map fst (tasks_dict m))
                 then (Inl Exception, m\<lparr>db_handler := db'\<rparr>)
                 else (Inr True,
                       m\<lparr> db_handler := db',
                           tasks_dict := dict_delitem (tasks_dict m) full_task_id,
                           task_list :=
                             filter (\<lambda>t. task_id (objects m ! t) \<noteq> full_task_id)
                               (task_list m) \<rparr>))"







section \<open>Identifiers beyond Latin-1\<close>

text \<open>
  A stored identifier is any Python string, and \<open>get_task\<close> lower-cases it.  Beyond the
  code points below 256 \<open>str.lower\<close> is no longer a map over the characters: CPython
  lower-cases each character by the table \<open>_PyUnicode_ToLowerFull\<close>, which may give up to
  three characters, except the Greek capital sigma U+03A3 (931), which becomes the final
  sigma U+03C2 (962) when a cased character precedes it and none follows it, characters
  that are case-ignorable being skipped on both sides, and the small sigma U+03C3 (963)
  otherwise.  A string is here the list of its code points; the three tables of the
  Unicode database are a parameter.
\<close>

record unicode_tables =
  to_lower_full :: "nat \<Rightarrow> nat list"
  is_cased :: "nat \<Rightarrow> bool"
  is_case_ignorable :: "nat \<Rightarrow> bool"

text \<open>
  \<open>handle_capital_sigma\<close>: \<open>before\<close> holds the characters to the left of the sigma, the
  nearest first, \<open>after\<close> those to its right.
\<close>

definition handle_capital_sigma :: "unicode_tables \<Rightarrow> nat list \<Rightarrow> nat list \<Rightarrow> nat" where
  "handle_capital_sigma T before after =
     (let final_sigma =
            (case dropWhile (is_case_ignorable T) before of
               [] \<Rightarrow> False
             | c # _ \<Rightarrow> is_cased T c);
          final_sigma =
            (if final_sigma
             then (case dropWhile (is_case_ignorable T) after of
                     [] \<Rightarrow> True
                   | c # _ \<Rightarrow> \<not> is_cased T c)
             else final_sigma)
      in if final_sigma then 962 else 963)"

fun do_lower :: "unicode_tables \<Rightarrow> nat list \<Rightarrow> nat list \<Rightarrow> nat list" where
  "do_lower T before [] = []"
| "do_lower T before (c # after) =
     (if c = 931 then [handle_capital_sigma T before after] else to_lower_full T c)
     @ do_lower T (c # before) after"

definition py_lower :: "unicode_tables \<Rightarrow> nat list \<Rightarrow> nat list" where
  "py_lower T s = do_lower T [] s"

text \<open>
  \<open>TaskManager.get_task\<close> reads nothing of the manager but the dictionary \<open>_tasks\<close>.
  This is the method on a dictionary whose keys are strings of any code points.
\<close>

fun scan_prefix_unicode ::
  "unicode_tables \<Rightarrow> nat list \<Rightarrow> (nat list \<times> nat) list \<Rightarrow> nat option" where
  "scan_prefix_unicode T task_id_lower [] = None"
| "scan_prefix_unicode T task_id_lower ((full_id, r) # items) =
     (if str_startswith (py_lower T full_id) task_id_lower then Some r
      else scan_prefix_unicode T task_id_lower items)"

definition get_task_unicode ::
  "unicode_tables \<Rightarrow> (nat list \<times> nat) list \<Rightarrow> nat list \<Rightarrow> nat option" where
  "get_task_unicode T tasks tid =
     (case map_of tasks tid of
        Some r \<Rightarrow> Some r
      | None \<Rightarrow> scan_prefix_unicode T (py_lower T tid) tasks)"

text \<open>The code points of a string of the Latin-1 model.\<close>

definition codepoints :: "string \<Rightarrow> nat list" where
  "codepoints s = map of_char s"

section \<open>A sample repository\<close>

text \<open>
  Three stored tasks, T1 (High, due 2024-01-10), T2 (Low, due 2024-01-05) and T3 (High,
  due 2024-01-01), a connected store holding their documents, and the manager that has
  loaded them.
\<close>

definition sample_t1 :: task where
  "sample_t1 = \<lparr> task_id = ''3f2a9c1e-5b7d-4e8a-9c0f-1a2b3c4d5e6f'', title = ''Write report'',
                  description = ''quarterly'', due_date = ((2024, 1, 10), 0, 0, 0, 0),
                  priority = ''High'', status = ''Pending'',
                  created_at = ((2023, 12, 1), 8, 30, 0, 0) \<rparr>"

definition sample_t2 :: task where
  "sample_t2 = \<lparr> task_id = ''b81d4c02-77aa-4f10-8e3b-0d9c8b7a6f5e'', title = ''buy milk'',
                  description = [], due_date = ((2024, 1, 5), 0, 0, 0, 0),
                  priority = ''Low'', status = ''In Progress'',
                  created_at = ((2023, 12, 2), 9, 0, 0, 0) \<rparr>"

definition sample_t3 :: task where
  "sample_t3 = \<lparr> task_id = ''c4e5f6a7-1b2c-4d3e-9f80-a1b2c3d4e5f6'', title = ''Call Bob'',
                  description = ''about the move'', due_date = ((2024, 1, 1), 17, 45, 0, 0),
                  priority = ''High'', status = ''Completed'',
                  created_at = ((2023, 12, 3), 10, 15, 0, 0) \<rparr>"

definition sample_db :: database_handler where
  "sample_db = \<lparr> has_client = True, server_up = True, op_fails = False,
                  documents = [to_dict sample_t1, to_dict sample_t2, to_dict sample_t3] \<rparr>"

definition sample_manager :: task_manager where
  "sample_manager =
     \<lparr> db_handler = sample_db,
       tasks_dict = [(''3f2a9c1e-5b7d-4e8a-9c0f-1a2b3c4d5e6f'', 0),
                     (''b81d4c02-77aa-4f10-8e3b-0d9c8b7a6f5e'', 1),
                     (''c4e5f6a7-1b2c-4d3e-9f80-a1b2c3d4e5f6'', 2)],
       task_list = [0, 1, 2],
       objects = [sample_t1, sample_t2, sample_t3] \<rparr>"

definition sample_clock :: "nat \<Rightarrow> datetime" where
  "sample_clock i = ((2024, 1, 1), 9, 0, i, 0)"

section \<open>Specification-side definitions\<close>




text \<open>
  The agreement of the two cache structures: every task of the list is the object the
  dictionary holds under the task's id, every entry of the dictionary occurs in the list
  exactly once, and the two have the same size.
\<close>

definition cache_agree :: "task_manager \<Rightarrow> bool" where
  "cache_agree m \<longleftrightarrow>
     (\<forall>r \<in> set (task_list m). map_of (tasks_dict m) (task_id (objects m ! r)) = Some r)
     \<and> (\<forall>(k, r) \<in> set (tasks_dict m). count_list (task_list m) r = 1)
     \<and> length (tasks_dict m) = length (task_list m)"

text \<open>
  What the operations keep true together: the dictionary lists the cached objects in the
  order of the list, under their own ids; the store holds no id twice (its unique index);
  and every cached id is stored.
\<close>

definition repo_inv :: "task_manager \<Rightarrow> bool" where
  "repo_inv m \<longleftrightarrow>
     distinct (map fst (tasks_dict m))
     \<and> map snd (tasks_dict m) = task_list m
     \<and> distinct (task_list m)
     \<and> (\<forall>(k, r) \<in> set (tasks_dict m). r < length (objects m) \<and> task_id (objects m ! r) = k)
     \<and> distinct (map d_task_id (documents (db_handler m)))
     \<and> (\<forall>k \<in> fst ` set (tasks_dict m).
            Some k \<in> set (map d_task_id (documents (db_handler m))))"

text \<open>
  The calls a client can make on a \<open>TaskManager\<close>, with their arguments, and the state
  each leaves behind, whether it returns or raises.  \<open>Connectivity\<close> is not a call: it
  stands for the server going down or coming back between two calls.
\<close>

datatype operation =
    Load "nat \<Rightarrow> datetime"
  | Add datetime string string string datetime string "string option"
  | Update string "string option" "string option" "datetime option" "string option"
      "string option"
  | MarkCompleted string
  | Delete string
  | Connectivity bool bool

fun run_operation :: "task_manager \<Rightarrow> operation \<Rightarrow> task_manager" where
  "run_operation m (Load clock) = snd (load_tasks_from_db clock m)"
| "run_operation m (Add now new_id ttl descr due prio stat) =
     snd (add_task now new_id m ttl descr due prio stat)"
| "run_operation m (Update tid ttl descr due prio stat) =
     snd (update_task m tid ttl descr due prio stat)"
| "run_operation m (MarkCompleted tid) = snd (mark_completed m tid)"
| "run_operation m (Delete tid) = snd (delete_task m tid)"
| "run_operation m (Connectivity up fails) =
     m\<lparr>db_handler := (db_handler m)\<lparr>server_up := up, op_fails := fails\<rparr>\<rparr>"

text \<open>The sample manager while the server is down.\<close>

definition sample_offline :: task_manager where
  "sample_offline = sample_manager\<lparr>db_handler := sample_db\<lparr>server_up := False\<rparr>\<rparr>"

text \<open>A run of calls on a manager created over the sample store.\<close>

definition sample_ops :: "operation list" where
  "sample_ops =
     [Load sample_clock,
      Add ((2024, 1, 2), 10, 0, 0, 0) ''9a8b7c6d-1111-4222-8333-444455556666'' ''  Plan trip ''
        ''book flights'' ((2024, 2, 1), 0, 0, 0, 0) ''medium'' None,
      Update ''3f2a9c1e'' (Some ''Report v2'') None None (Some ''Urgent'') None,
      Delete ''B81D4C02'',
      MarkCompleted ''9a8b'',
      Connectivity False False,
      Delete ''c4e5f6a7'']"

text \<open>
  A store in which the second document has the empty string as its id, and the manager
  that has loaded it.
\<close>

definition blank_id_db :: database_handler where
  "blank_id_db = \<lparr> has_client = True, server_up = True, op_fails = False,
                    documents = [to_dict sample_t1, to_dict (sample_t2\<lparr>task_id := []\<rparr>)] \<rparr>"

definition blank_id_manager :: task_manager where
  "blank_id_manager =
     \<lparr> db_handler = blank_id_db,
       tasks_dict = [(''3f2a9c1e-5b7d-4e8a-9c0f-1a2b3c4d5e6f'', 0), ([], 1)],
       task_list = [0, 1],
       objects = [sample_t1, sample_t2\<lparr>task_id := []\<rparr>] \<rparr>"

text \<open>
  The entries of the Unicode tables for the code points below 256 and for the Greek
  capital letters U+0391..U+03A9 (913..937).  Every other code point is entered as
  unchanged, not cased and not case-ignorable; the examples below use none of those.
\<close>

definition sample_tables :: unicode_tables where
  "sample_tables =
     \<lparr> to_lower_full =
         (\<lambda>c. if (65 \<le> c \<and> c \<le> 90) \<or> (192 \<le> c \<and> c \<le> 222 \<and> c \<noteq> 215)
                  \<or> (913 \<le> c \<and> c \<le> 937 \<and> c \<noteq> 930)
               then [c + 32] else [c]),
       is_cased =
         (\<lambda>c. (65 \<le> c \<and> c \<le> 90) \<or> (97 \<le> c \<and> c \<le> 122) \<or> c = 170 \<or> c = 181 \<or> c = 186
               \<or> (192 \<le> c \<and> c \<le> 214) \<or> (216 \<le> c \<and> c \<le> 246) \<or> (248 \<le> c \<and> c \<le> 255)
               \<or> (913 \<le> c \<and> c \<le> 929) \<or> (931 \<le> c \<and> c \<le> 937)),
       is_case_ignorable =
         (\<lambda>c. c \<in> {39, 46, 58, 94, 96, 168, 173, 175, 180, 183, 184}) \<rparr>"

text \<open>
  A dictionary with the id of the first sample task and the id
  U+0391 U+0392 U+0393 U+0394 U+0395 U+0396 U+0397 U+03A3 U+0391 \<open>-0001\<close>, whose eighth
  character is a capital sigma followed by a letter.
\<close>

definition sigma_id :: "nat list" where
  "sigma_id = [913, 914, 915, 916, 917, 918, 919, 931, 913, 45, 48, 48, 48, 49]"

definition sigma_tasks :: "(nat list \<times> nat) list" where
  "sigma_tasks = [(codepoints ''3f2a9c1e-5b7d-4e8a-9c0f-1a2b3c4d5e6f'', 0), (sigma_id, 1)]"

section \<open>The Task record\<close>

text \<open>
  C7.  Converting any task to its dictionary with \<open>to_dict\<close> and building a task from
  that dictionary with \<open>from_dict\<close> gives back the same task: identifier, title,
  description, due date, priority, status and creation time are all preserved, whatever
  the clock reads when \<open>from_dict\<close> runs.
\<close>

theorem to_dict_from_dict_roundtrip: "from_dict now (to_dict t) = Inr t"
  by (simp add: from_dict_def to_dict_def Task_init_def)

text \<open>
  C2, as the code has it.  \<open>Task.__init__\<close> validates nothing and never fails: it stores
  the title, due date and priority it is given, whatever they are, and an omitted status
  becomes \<open>Pending\<close>.  The constraints are enforced by the property setters: assigning a
  title that is empty or only white space, a priority outside Low, Medium, High, or a
  status outside Pending, In Progress, Completed fails with \<open>ValueError\<close> (and succeeds
  otherwise).
\<close>

theorem Task_init_no_validation:
  "(\<exists>t. Task_init now tid ttl descr due prio stat created = Inr t
        \<and> task_id t = tid \<and> title t = ttl \<and> description t = descr \<and> due_date t = due
        \<and> priority t = prio
        \<and> status t = (case stat of None \<Rightarrow> ''Pending'' | Some s \<Rightarrow> s))
   \<and> (Task_init now tid ttl descr due prio None created
        = Task_init now tid ttl descr due prio (Some ''Pending'') created)
   \<and> (set_title t0 v = (if str_strip v = [] then Inl ValueError
                         else Inr (t0\<lparr>title := str_strip v\<rparr>)))
   \<and> (set_priority t0 v = (if v = ''Low'' \<or> v = ''Medium'' \<or> v = ''High''
                            then Inr (t0\<lparr>priority := v\<rparr>) else Inl ValueError))
   \<and> (set_status t0 v = (if v = ''Pending'' \<or> v = ''In Progress'' \<or> v = ''Completed''
                          then Inr (t0\<lparr>status := v\<rparr>) else Inl ValueError))"
proof -
  have strip_Nil: "str_strip [] = []"
    by (simp add: str_strip_def)
  show ?thesis
    by (auto simp: Task_init_def set_title_def set_priority_def set_status_def
        VALID_PRIORITIES_def VALID_STATUSES_def strip_Nil)
qed

text \<open>
  C2 as stated fails: a task with an empty title and the priority \<open>Urgent\<close> is
  constructed without error.
\<close>

theorem Task_init_accepts_invalid_fields:
  "Task_init ((2024, 1, 1), 9, 0, 0, 0) ''t1'' [] [] ((2024, 1, 10), 0, 0, 0, 0) ''Urgent''
     None None
   = Inr \<lparr> task_id = ''t1'', title = [], description = [],
           due_date = ((2024, 1, 10), 0, 0, 0, 0), priority = ''Urgent'',
           status = ''Pending'', created_at = ((2024, 1, 1), 9, 0, 0, 0) \<rparr>"
  by (simp add: Task_init_def)

section \<open>Resolving identifiers\<close>

lemma str_startswith_refl: "str_startswith s s"
  by (induction s) auto

lemma str_startswith_same_front: "str_startswith (xs @ s) (xs @ p) = str_startswith s p"
  by (induction xs) auto

lemma str_startswith_map:
  "inj f \<Longrightarrow> str_startswith (map f s) (map f p) = str_startswith s p"
  by (induction s p rule: str_startswith.induct) (auto dest: injD)

text \<open>
  Lower-casing the first \<open>n\<close> characters of a string gives a prefix of the lower-cased
  string, as long as no capital sigma is among them.
\<close>

lemma do_lower_take:
  "931 \<notin> set (take n s) \<Longrightarrow>
   str_startswith (do_lower T before s) (do_lower T before (take n s))"
proof (induction s arbitrary: n before)
  case Nil
  then show ?case by simp
next
  case (Cons c s)
  show ?case
  proof (cases n)
    case 0
    then show ?thesis by (cases "do_lower T before (c # s)") simp_all
  next
    case (Suc n')
    with Cons.prems have c: "c \<noteq> 931" and rest: "931 \<notin> set (take n' s)" by auto
    from Cons.IH[OF rest] c Suc show ?thesis
      by (simp add: str_startswith_same_front)
  qed
qed

lemma py_lower_take:
  "931 \<notin> set (take n s) \<Longrightarrow> str_startswith (py_lower T s) (py_lower T (take n s))"
  by (simp add: py_lower_def do_lower_take)

text \<open>On the code points below 256 the model of the manager is this one.\<close>

lemma codepoints_eq_iff: "codepoints a = codepoints b \<longleftrightarrow> a = b"
  by (simp add: codepoints_def inj_map_eq_map[OF inj_of_char])

lemma do_lower_codepoints:
  assumes "\<forall>c<256. to_lower_full T c = [of_char (char_lower (char_of c))]"
  shows "do_lower T before (codepoints s) = codepoints (str_lower s)"
proof (induction s arbitrary: before)
  case Nil
  then show ?case by (simp add: codepoints_def str_lower_def)
next
  case (Cons ch s)
  have small: "(of_char ch :: nat) < 256" by simp
  then have "(of_char ch :: nat) \<noteq> 931" by arith
  moreover from assms small
  have "to_lower_full T (of_char ch) = [of_char (char_lower (char_of (of_char ch :: nat)))]"
    by blast
  ultimately show ?case
    using Cons.IH[of "of_char ch # before"] by (simp add: codepoints_def str_lower_def)
qed

lemma py_lower_codepoints:
  "\<forall>c<256. to_lower_full T c = [of_char (char_lower (char_of c))] \<Longrightarrow>
   py_lower T (codepoints s) = codepoints (str_lower s)"
  by (simp add: py_lower_def do_lower_codepoints)

lemma str_startswith_codepoints:
  "str_startswith (codepoints s) (codepoints p) = str_startswith s p"
  unfolding codepoints_def by (rule str_startswith_map[OF inj_of_char])

lemma map_of_codepoints:
  "map_of (map (\<lambda>(k, r). (codepoints k, r)) d) (codepoints tid) = map_of d tid"
  by (induction d) (auto simp: codepoints_eq_iff)

lemma scan_prefix_codepoints:
  assumes "\<forall>c<256. to_lower_full T c = [of_char (char_lower (char_of c))]"
  shows "scan_prefix_unicode T (codepoints p) (map (\<lambda>(k, r). (codepoints k, r)) d)
         = scan_prefix p d"
  by (induction p d rule: scan_prefix.induct)
     (simp_all add: py_lower_codepoints[OF assms] str_startswith_codepoints)

lemma get_task_unicode_latin1:
  assumes "\<forall>c<256. to_lower_full T c = [of_char (char_lower (char_of c))]"
  shows "get_task_unicode T (map (\<lambda>(k, r). (codepoints k, r)) (tasks_dict m)) (codepoints tid)
         = get_task m tid"
  by (simp add: get_task_unicode_def get_task_def map_of_codepoints
      py_lower_codepoints[OF assms] scan_prefix_codepoints[OF assms] split: option.splits)

lemma scan_prefix_unicode_None_iff:
  "scan_prefix_unicode T p d = None \<longleftrightarrow> (\<forall>k \<in> fst ` set d. \<not> str_startswith (py_lower T k) p)"
  by (induction T p d rule: scan_prefix_unicode.induct) auto

lemma scan_prefix_unicode_Some_iff:
  "scan_prefix_unicode T p d = Some r \<longleftrightarrow>
     (\<exists>i<length d. snd (d ! i) = r \<and> str_startswith (py_lower T (fst (d ! i))) p
        \<and> (\<forall>j<i. \<not> str_startswith (py_lower T (fst (d ! j))) p))"
proof (induction d)
  case Nil
  then show ?case by simp
next
  case (Cons kv d)
  obtain k v where kv: "kv = (k, v)" by (cases kv)
  show ?case
  proof (cases "str_startswith (py_lower T k) p")
    case True
    have "(\<exists>i<length (kv # d). snd ((kv # d) ! i) = r \<and> str_startswith (py_lower T (fst ((kv # d) ! i))) p
        \<and> (\<forall>j<i. \<not> str_startswith (py_lower T (fst ((kv # d) ! j))) p)) \<longleftrightarrow> v = r"
    proof
      assume "\<exists>i<length (kv # d). snd ((kv # d) ! i) = r \<and> str_startswith (py_lower T (fst ((kv # d) ! i))) p
        \<and> (\<forall>j<i. \<not> str_startswith (py_lower T (fst ((kv # d) ! j))) p)"
      then obtain i where i: "snd ((kv # d) ! i) = r"
        "\<forall>j<i. \<not> str_startswith (py_lower T (fst ((kv # d) ! j))) p" by blast
      have "i = 0"
      proof (rule ccontr)
        assume "i \<noteq> 0"
        then have "0 < i" by simp
        with i(2) have "\<not> str_startswith (py_lower T (fst ((kv # d) ! 0))) p" by blast
        with True kv show False by simp
      qed
      with i(1) kv show "v = r" by simp
    next
      assume "v = r"
      with True kv show "\<exists>i<length (kv # d). snd ((kv # d) ! i) = r \<and> str_startswith (py_lower T (fst ((kv # d) ! i))) p
        \<and> (\<forall>j<i. \<not> str_startswith (py_lower T (fst ((kv # d) ! j))) p)"
        by (intro exI[of _ 0]) simp
    qed
    with True kv show ?thesis by auto
  next
    case False
    have "(\<exists>i<length (kv # d). snd ((kv # d) ! i) = r \<and> str_startswith (py_lower T (fst ((kv # d) ! i))) p
        \<and> (\<forall>j<i. \<not> str_startswith (py_lower T (fst ((kv # d) ! j))) p)) \<longleftrightarrow>
        (\<exists>i<length d. snd (d ! i) = r \<and> str_startswith (py_lower T (fst (d ! i))) p
        \<and> (\<forall>j<i. \<not> str_startswith (py_lower T (fst (d ! j))) p))" (is "?L \<longleftrightarrow> ?R")
    proof
      assume ?L
      then obtain i where i: "i < length (kv # d)" "snd ((kv # d) ! i) = r"
        "str_startswith (py_lower T (fst ((kv # d) ! i))) p"
        "\<forall>j<i. \<not> str_startswith (py_lower T (fst ((kv # d) ! j))) p" by blast
      from i(3) False kv obtain i' where i': "i = Suc i'" by (cases i) auto
      have "\<forall>j<i'. \<not> str_startswith (py_lower T (fst (d ! j))) p"
      proof (intro allI impI)
        fix j assume "j < i'"
        then have "Suc j < i" using i' by simp
        with i(4) have "\<not> str_startswith (py_lower T (fst ((kv # d) ! Suc j))) p" by blast
        then show "\<not> str_startswith (py_lower T (fst (d ! j))) p" by simp
      qed
      with i i' show ?R by (intro exI[of _ i']) simp
    next
      assume ?R
      then obtain i where i: "i < length d" "snd (d ! i) = r"
        "str_startswith (py_lower T (fst (d ! i))) p"
        "\<forall>j<i. \<not> str_startswith (py_lower T (fst (d ! j))) p" by blast
      have "\<forall>j<Suc i. \<not> str_startswith (py_lower T (fst ((kv # d) ! j))) p"
      proof (intro allI impI)
        fix j assume j: "j < Suc i"
        show "\<not> str_startswith (py_lower T (fst ((kv # d) ! j))) p"
        proof (cases j)
          case 0
          with False kv show ?thesis by simp
        next
          case (Suc j')
          with j i(4) show ?thesis by simp
        qed
      qed
      with i show ?L by (intro exI[of _ "Suc i"]) simp
    qed
    with False kv Cons.IH show ?thesis by simp
  qed
qed

lemma scan_prefix_unicode_unique:
  "(k0, r0) \<in> set d \<Longrightarrow> distinct (map fst d) \<Longrightarrow> str_startswith (py_lower T k0) p \<Longrightarrow>
   (\<forall>k \<in> fst ` set d. k \<noteq> k0 \<longrightarrow> \<not> str_startswith (py_lower T k) p) \<Longrightarrow>
   scan_prefix_unicode T p d = Some r0"
proof (induction d)
  case Nil
  then show ?case by simp
next
  case (Cons kv d)
  obtain k v where kv: "kv = (k, v)" by (cases kv)
  show ?case
  proof (cases "k = k0")
    case True
    with Cons.prems kv have "v = r0" by (auto simp: image_iff)
    with True kv Cons.prems(3) show ?thesis by simp
  next
    case False
    with Cons.prems kv have "\<not> str_startswith (py_lower T k) p" by simp
    moreover have "scan_prefix_unicode T p d = Some r0"
      using Cons.IH Cons.prems kv False by auto
    ultimately show ?thesis using kv by simp
  qed
qed

text \<open>
  C4, as the code has it.  \<open>get_task\<close> looks the identifier up exactly first.  If the
  identifier is not a cached id, the result is the task of the first entry, in the
  insertion order of the cache, whose lower-cased id starts with the lower-cased
  identifier; the result is not-found exactly when no cached id has that prefix.  In
  particular the first eight characters of a cached id resolve to that very task when no
  other cached id has them as a prefix and no Greek capital sigma U+03A3 is among them.
  This holds for identifiers of any code points and whatever the Unicode tables are; the
  keys of a dictionary are distinct.  On identifiers of code points below 256, with a table
  that lower-cases them as \<open>char_lower\<close> does, the method is \<open>get_task\<close> of the manager.
\<close>

theorem get_task_resolution:
  assumes "distinct (map fst tasks)"
  shows "(\<forall>r. (tid, r) \<in> set tasks \<longrightarrow> get_task_unicode T tasks tid = Some r)
       \<and> (tid \<notin> fst ` set tasks \<longrightarrow>
            (\<forall>r. get_task_unicode T tasks tid = Some r \<longleftrightarrow>
               (\<exists>i<length tasks. snd (tasks ! i) = r
                   \<and> str_startswith (py_lower T (fst (tasks ! i))) (py_lower T tid)
                   \<and> (\<forall>j<i. \<not> str_startswith (py_lower T (fst (tasks ! j)))
                                 (py_lower T tid)))))
       \<and> (get_task_unicode T tasks tid = None \<longleftrightarrow>
            (\<forall>k \<in> fst ` set tasks. \<not> str_startswith (py_lower T k) (py_lower T tid)))
       \<and> (\<forall>k0 r0. (k0, r0) \<in> set tasks \<and> tid = take 8 k0 \<and> 931 \<notin> set tid
              \<and> (\<forall>k \<in> fst ` set tasks.
                     k \<noteq> k0 \<longrightarrow> \<not> str_startswith (py_lower T k) (py_lower T tid))
            \<longrightarrow> get_task_unicode T tasks tid = Some r0)
       \<and> ((\<forall>c<256. to_lower_full T c = [of_char (char_lower (char_of c))]) \<longrightarrow>
            (\<forall>m x. get_task m x
                   = get_task_unicode T (map (\<lambda>(k, r). (codepoints k, r)) (tasks_dict m))
                       (codepoints x)))"
proof (intro conjI allI impI)
  fix r assume "(tid, r) \<in> set tasks"
  with assms have "map_of tasks tid = Some r" by simp
  then show "get_task_unicode T tasks tid = Some r" by (simp add: get_task_unicode_def)
next
  fix r assume "tid \<notin> fst ` set tasks"
  then have "map_of tasks tid = None" by (simp add: map_of_eq_None_iff)
  then show "get_task_unicode T tasks tid = Some r \<longleftrightarrow>
               (\<exists>i<length tasks. snd (tasks ! i) = r
                   \<and> str_startswith (py_lower T (fst (tasks ! i))) (py_lower T tid)
                   \<and> (\<forall>j<i. \<not> str_startswith (py_lower T (fst (tasks ! j)))
                                 (py_lower T tid)))"
    by (simp add: get_task_unicode_def scan_prefix_unicode_Some_iff)
next
  show "get_task_unicode T tasks tid = None \<longleftrightarrow>
            (\<forall>k \<in> fst ` set tasks. \<not> str_startswith (py_lower T k) (py_lower T tid))"
  proof (cases "map_of tasks tid")
    case None
    then show ?thesis by (simp add: get_task_unicode_def scan_prefix_unicode_None_iff)
  next
    case (Some r)
    then have "tid \<in> fst ` set tasks"
      by (metis map_of_eq_None_iff option.distinct(1))
    moreover have "str_startswith (py_lower T tid) (py_lower T tid)"
      by (rule str_startswith_refl)
    ultimately show ?thesis using Some by (auto simp: get_task_unicode_def)
  qed
next
  fix k0 r0
  assume h: "(k0, r0) \<in> set tasks \<and> tid = take 8 k0 \<and> 931 \<notin> set tid
              \<and> (\<forall>k \<in> fst ` set tasks.
                     k \<noteq> k0 \<longrightarrow> \<not> str_startswith (py_lower T k) (py_lower T tid))"
  then have "931 \<notin> set (take 8 k0)" by blast
  then have "str_startswith (py_lower T k0) (py_lower T (take 8 k0))"
    by (rule py_lower_take)
  with h have match0: "str_startswith (py_lower T k0) (py_lower T tid)" by simp
  show "get_task_unicode T tasks tid = Some r0"
  proof (cases "map_of tasks tid")
    case None
    moreover have "scan_prefix_unicode T (py_lower T tid) tasks = Some r0"
    proof (rule scan_prefix_unicode_unique[of k0])
      show "(k0, r0) \<in> set tasks" using h by blast
      show "distinct (map fst tasks)" by (rule assms)
      show "str_startswith (py_lower T k0) (py_lower T tid)" by (rule match0)
      show "\<forall>k\<in>fst ` set tasks.
              k \<noteq> k0 \<longrightarrow> \<not> str_startswith (py_lower T k) (py_lower T tid)"
        using h by blast
    qed
    ultimately show ?thesis by (simp add: get_task_unicode_def)
  next
    case (Some r)
    then have in_d: "(tid, r) \<in> set tasks" by (rule map_of_SomeD)
    then have "tid \<in> fst ` set tasks" by (force simp: image_iff)
    moreover have "str_startswith (py_lower T tid) (py_lower T tid)"
      by (rule str_startswith_refl)
    ultimately have "tid = k0" using h by blast
    with in_d h assms have "r = r0"
      by (metis map_of_is_SomeI option.inject)
    with Some show ?thesis by (simp add: get_task_unicode_def)
  qed
next
  fix m x
  assume "\<forall>c<256. to_lower_full T c = [of_char (char_lower (char_of c))]"
  then show "get_task m x
      = get_task_unicode T (map (\<lambda>(k, r). (codepoints k, r)) (tasks_dict m)) (codepoints x)"
    by (simp add: get_task_unicode_latin1)
qed

theorem get_task_resolution_witness:
  "distinct (map fst sigma_tasks)
   \<and> get_task_unicode sample_tables sigma_tasks (codepoints ''3f2a9c1e'') = Some 0
   \<and> get_task_unicode sample_tables sigma_tasks (codepoints ''B81D'') = None
   \<and> get_task sample_manager ''3f2a9c1e''
       = get_task_unicode sample_tables
           (map (\<lambda>(k, r). (codepoints k, r)) (tasks_dict sample_manager))
           (codepoints ''3f2a9c1e'')"
proof -
  have d: "distinct (map fst sigma_tasks)" by code_simp
  have t: "\<forall>c<256. to_lower_full sample_tables c = [of_char (char_lower (char_of c))]"
  proof (intro allI impI)
    fix c :: nat assume c: "c < 256"
    have "(of_char (char_of c) :: nat) = c" using c by simp
    moreover have "(of_char (char_lower (char_of c)) :: nat)
        = (if (65 \<le> c \<and> c \<le> 90) \<or> (192 \<le> c \<and> c \<le> 222 \<and> c \<noteq> 215) then c + 32 else c)"
      using c calculation by (simp add: char_lower_def Let_def)
    ultimately show "to_lower_full sample_tables c = [of_char (char_lower (char_of c))]"
      using c by (simp add: sample_tables_def)
  qed
  have h: "(codepoints ''3f2a9c1e-5b7d-4e8a-9c0f-1a2b3c4d5e6f'', 0) \<in> set sigma_tasks
      \<and> codepoints ''3f2a9c1e'' = take 8 (codepoints ''3f2a9c1e-5b7d-4e8a-9c0f-1a2b3c4d5e6f'')
      \<and> 931 \<notin> set (codepoints ''3f2a9c1e'')
      \<and> (\<forall>k \<in> fst ` set sigma_tasks.
             k \<noteq> codepoints ''3f2a9c1e-5b7d-4e8a-9c0f-1a2b3c4d5e6f''
             \<longrightarrow> \<not> str_startswith (py_lower sample_tables k)
                     (py_lower sample_tables (codepoints ''3f2a9c1e'')))"
    by code_simp
  have n: "\<forall>k \<in> fst ` set sigma_tasks.
             \<not> str_startswith (py_lower sample_tables k)
                 (py_lower sample_tables (codepoints ''B81D''))"
    by code_simp
  from get_task_resolution[OF d, of "codepoints ''3f2a9c1e''" sample_tables] h
  have a: "get_task_unicode sample_tables sigma_tasks (codepoints ''3f2a9c1e'') = Some 0"
    by blast
  from get_task_resolution[OF d, of "codepoints ''B81D''" sample_tables] n
  have b: "get_task_unicode sample_tables sigma_tasks (codepoints ''B81D'') = None"
    by blast
  from get_task_resolution[OF d, of "codepoints ''3f2a9c1e''" sample_tables] t
  have c: "get_task sample_manager ''3f2a9c1e''
       = get_task_unicode sample_tables
           (map (\<lambda>(k, r). (codepoints k, r)) (tasks_dict sample_manager))
           (codepoints ''3f2a9c1e'')"
    by blast
  from d a b c show ?thesis by blast
qed

text \<open>
  C4 as stated fails: the id U+0391..U+0397 U+03A3 U+0391 \<open>-0001\<close> is cached and no other
  cached id starts with its first eight characters, yet these are not found.  Alone, they
  end in a sigma that lower-cases to the final sigma 962; inside the id the same sigma is
  followed by a letter and lower-cases to 963.
\<close>

theorem get_task_sigma_prefix_not_found:
  "(sigma_id, 1) \<in> set sigma_tasks
   \<and> map fst sigma_tasks = [codepoints ''3f2a9c1e-5b7d-4e8a-9c0f-1a2b3c4d5e6f'', sigma_id]
   \<and> \<not> str_startswith
         (py_lower sample_tables (codepoints ''3f2a9c1e-5b7d-4e8a-9c0f-1a2b3c4d5e6f''))
         (py_lower sample_tables (take 8 sigma_id))
   \<and> py_lower sample_tables (take 8 sigma_id) = [945, 946, 947, 948, 949, 950, 951, 962]
   \<and> py_lower sample_tables sigma_id
       = [945, 946, 947, 948, 949, 950, 951, 963, 945, 45, 48, 48, 48, 49]
   \<and> get_task_unicode sample_tables sigma_tasks (take 8 sigma_id) = None"
  by code_simp

section \<open>Sorting\<close>









section \<open>Filtering\<close>








section \<open>Updating\<close>

lemma str_strip_Nil: "str_strip [] = []"
  by (simp add: str_strip_def)

lemma str_strip_idem: "str_strip (str_strip s) = str_strip s"
proof -
  define a where "a = dropWhile char_isspace s"
  define b where "b = rev (dropWhile char_isspace (rev a))"
  have b: "str_strip s = b" by (simp add: str_strip_def a_def b_def)
  have "rev (rev a) = rev (takeWhile char_isspace (rev a) @ dropWhile char_isspace (rev a))"
    by (simp only: takeWhile_dropWhile_id)
  then have "a = b @ rev (takeWhile char_isspace (rev a))"
    by (simp only: rev_append rev_rev_ident b_def)
  then obtain t where decomp: "a = b @ t" ..
  have front: "dropWhile char_isspace b = b"
  proof (cases b)
    case Nil
    then show ?thesis by simp
  next
    case (Cons c cs)
    from decomp Cons have "a \<noteq> []" by simp
    moreover from decomp Cons have "hd a = c" by simp
    ultimately have "dropWhile char_isspace s \<noteq> []" and "hd (dropWhile char_isspace s) = c"
      by (simp_all add: a_def)
    then have "\<not> char_isspace c"
      using hd_dropWhile[of char_isspace s] by simp
    with Cons show ?thesis by simp
  qed
  have rear: "dropWhile char_isspace (rev b) = rev b"
    by (simp add: b_def)
  have "str_strip b = b"
    by (simp add: str_strip_def front rear)
  with b show ?thesis by simp
qed

lemma validate_title_eq:
  "validate_title x = (if str_strip x = [] then Inl ValueError else Inr (str_strip x))"
  by (auto simp: validate_title_def str_strip_Nil)

lemma set_title_validated:
  "str_strip x \<noteq> [] \<Longrightarrow> set_title t (str_strip x) = Inr (t\<lparr>title := str_strip x\<rparr>)"
  by (simp add: set_title_def str_strip_idem)

lemma validate_description_eq: "validate_description (Some x) = str_strip x"
  by (auto simp: validate_description_def str_strip_Nil)

lemma validate_priority_cases:
  "validate_priority x = Inl ValueError
   \<or> (\<exists>v. validate_priority x = Inr v \<and> v \<in> set VALID_PRIORITIES)"
proof -
  define pl where "pl = str_lower (str_strip x)"
  have m: "map_of priority_map pl = None \<or> map_of priority_map pl = Some ''Low''
      \<or> map_of priority_map pl = Some ''Medium'' \<or> map_of priority_map pl = Some ''High''"
    by (simp add: priority_map_def)
  have f: "find (\<lambda>v. str_lower v = pl) [''Low'', ''Medium'', ''High''] = None
      \<or> find (\<lambda>v. str_lower v = pl) [''Low'', ''Medium'', ''High''] = Some ''Low''
      \<or> find (\<lambda>v. str_lower v = pl) [''Low'', ''Medium'', ''High''] = Some ''Medium''
      \<or> find (\<lambda>v. str_lower v = pl) [''Low'', ''Medium'', ''High''] = Some ''High''"
    by simp
  have v: "validate_priority x =
      (case map_of priority_map pl of
           Some v \<Rightarrow> Inr v
         | None \<Rightarrow>
             (case find (\<lambda>v. str_lower v = pl) [''Low'', ''Medium'', ''High''] of
                Some v \<Rightarrow> Inr v
              | None \<Rightarrow> Inl ValueError))"
    unfolding validate_priority_def pl_def Let_def by (rule refl)
  from m f show ?thesis
    unfolding v VALID_PRIORITIES_def by (elim disjE) simp_all
qed

lemma validate_status_cases:
  "validate_status x = Inl ValueError
   \<or> (\<exists>v. validate_status x = Inr v \<and> v \<in> set VALID_STATUSES)"
proof -
  define sl where "sl = str_lower (str_strip x)"
  have m: "map_of status_map sl = None \<or> map_of status_map sl = Some ''Pending''
      \<or> map_of status_map sl = Some ''In Progress''
      \<or> map_of status_map sl = Some ''Completed''"
    by (simp add: status_map_def)
  have f: "find (\<lambda>v. str_lower v = sl) [''Pending'', ''In Progress'', ''Completed''] = None
      \<or> find (\<lambda>v. str_lower v = sl) [''Pending'', ''In Progress'', ''Completed'']
          = Some ''Pending''
      \<or> find (\<lambda>v. str_lower v = sl) [''Pending'', ''In Progress'', ''Completed'']
          = Some ''In Progress''
      \<or> find (\<lambda>v. str_lower v = sl) [''Pending'', ''In Progress'', ''Completed'']
          = Some ''Completed''"
    by simp
  have v: "validate_status x =
      (case map_of status_map sl of
           Some v \<Rightarrow> Inr v
         | None \<Rightarrow>
             (case find (\<lambda>v. str_lower v = sl) [''Pending'', ''In Progress'', ''Completed''] of
                Some v \<Rightarrow> Inr v
              | None \<Rightarrow> Inl ValueError))"
    unfolding validate_status_def sl_def Let_def by (rule refl)
  from m f show ?thesis
    unfolding v VALID_STATUSES_def by (elim disjE) simp_all
qed

lemma validate_priority_Inl: "validate_priority x = Inl e \<Longrightarrow> e = ValueError"
  using validate_priority_cases[of x] by auto

lemma validate_status_Inl: "validate_status x = Inl e \<Longrightarrow> e = ValueError"
  using validate_status_cases[of x] by auto

lemma validate_priority_Inr: "validate_priority x = Inr v \<Longrightarrow> v \<in> set VALID_PRIORITIES"
  using validate_priority_cases[of x] by auto

lemma validate_status_Inr: "validate_status x = Inr v \<Longrightarrow> v \<in> set VALID_STATUSES"
  using validate_status_cases[of x] by auto

text \<open>What each step of \<open>update_task\<close> does.\<close>

lemma upd_title_eq:
  "upd_title arg (t, u) =
     (case arg of
        None \<Rightarrow> Inr (t, u)
      | Some x \<Rightarrow>
          if str_strip x = [] then Inl ValueError
          else Inr (t\<lparr>title := str_strip x\<rparr>, u\<lparr>d_title := Some (str_strip x)\<rparr>))"
  by (cases arg) (simp_all add: upd_title_def validate_title_eq set_title_validated)

lemma upd_description_eq:
  "upd_description arg (t, u) =
     (case arg of
        None \<Rightarrow> Inr (t, u)
      | Some x \<Rightarrow>
          Inr (t\<lparr>description := str_strip x\<rparr>, u\<lparr>d_description := Some (str_strip x)\<rparr>))"
  by (cases arg) (simp_all add: upd_description_def validate_description_eq set_description_def)

lemma upd_due_date_eq:
  "upd_due_date arg (t, u) =
     (case arg of
        None \<Rightarrow> Inr (t, u)
      | Some x \<Rightarrow> Inr (t\<lparr>due_date := x\<rparr>, u\<lparr>d_due_date := Some x\<rparr>))"
  by (cases arg) (simp_all add: upd_due_date_def set_due_date_def)

lemma upd_priority_eq:
  "upd_priority arg (t, u) =
     (case arg of
        None \<Rightarrow> Inr (t, u)
      | Some x \<Rightarrow>
          (case validate_priority x of
             Inl e \<Rightarrow> Inl ValueError
           | Inr v \<Rightarrow> Inr (t\<lparr>priority := v\<rparr>, u\<lparr>d_priority := Some v\<rparr>)))"
proof (cases arg)
  case None
  then show ?thesis by (simp add: upd_priority_def)
next
  case (Some x)
  show ?thesis
  proof (cases "validate_priority x")
    case (Inl e)
    with Some validate_priority_Inl[OF Inl] show ?thesis by (simp add: upd_priority_def)
  next
    case (Inr v)
    with Some validate_priority_Inr[OF Inr] show ?thesis
      by (simp add: upd_priority_def set_priority_def)
  qed
qed

lemma upd_status_eq:
  "upd_status arg (t, u) =
     (case arg of
        None \<Rightarrow> Inr (t, u)
      | Some x \<Rightarrow>
          (case validate_status x of
             Inl e \<Rightarrow> Inl ValueError
           | Inr v \<Rightarrow> Inr (t\<lparr>status := v\<rparr>, u\<lparr>d_status := Some v\<rparr>)))"
proof (cases arg)
  case None
  then show ?thesis by (simp add: upd_status_def)
next
  case (Some x)
  show ?thesis
  proof (cases "validate_status x")
    case (Inl e)
    with Some validate_status_Inl[OF Inl] show ?thesis by (simp add: upd_status_def)
  next
    case (Inr v)
    with Some validate_status_Inr[OF Inr] show ?thesis
      by (simp add: upd_status_def set_status_def)
  qed
qed

lemma apply_updates_title_fails:
  "str_strip x = [] \<Longrightarrow> apply_updates t (Some x) descr due prio stat = (Inl ValueError, t)"
  by (simp add: apply_updates_def upd_title_eq)

lemma apply_updates_priority_fails:
  assumes "\<forall>x. ttl = Some x \<longrightarrow> str_strip x \<noteq> []"
    and "validate_priority p = Inl e"
  shows "apply_updates t ttl descr due (Some p) stat =
           (Inl ValueError,
            t\<lparr> title := (case ttl of None \<Rightarrow> title t | Some x \<Rightarrow> str_strip x),
               description := (case descr of None \<Rightarrow> description t | Some x \<Rightarrow> str_strip x),
               due_date := (case due of None \<Rightarrow> due_date t | Some d \<Rightarrow> d) \<rparr>)"
  using assms
  by (cases ttl; cases descr; cases due)
     (simp_all add: apply_updates_def upd_title_eq upd_description_eq upd_due_date_eq
        upd_priority_eq)

lemma apply_updates_status_fails:
  assumes "\<forall>x. ttl = Some x \<longrightarrow> str_strip x \<noteq> []"
    and "\<forall>p. prio = Some p \<longrightarrow> \<not> isl (validate_priority p)"
    and "validate_status s = Inl e"
  shows "apply_updates t ttl descr due prio (Some s) =
           (Inl ValueError,
            t\<lparr> title := (case ttl of None \<Rightarrow> title t | Some x \<Rightarrow> str_strip x),
               description := (case descr of None \<Rightarrow> description t | Some x \<Rightarrow> str_strip x),
               due_date := (case due of None \<Rightarrow> due_date t | Some d \<Rightarrow> d),
               priority := (case prio of None \<Rightarrow> priority t
                            | Some p \<Rightarrow> projr (validate_priority p)) \<rparr>)"
  using assms
  by (cases ttl; cases descr; cases due; cases prio)
     (auto simp: apply_updates_def upd_title_eq upd_description_eq upd_due_date_eq
        upd_priority_eq upd_status_eq split: sum.splits)

text \<open>
  C3.  Let the identifier resolve to a cached task.  If validation of a provided field
  fails, \<open>update_task\<close> raises the validator's \<open>ValueError\<close>, the store is not
  written (the handler in the resulting state is the one before the call), and the live
  object carries exactly the fields that precede the failing one in the order title,
  description, due date, priority, status: nothing when the title fails; title,
  description and due date when the priority fails; these and the priority when the status
  fails.  A field that was not provided keeps its value, and so do the failing field and
  those after it.
\<close>

theorem update_task_validation_failure:
  assumes "get_task m tid = Some r" and "r < length (objects m)"
  shows
    "(\<forall>x. ttl = Some x \<and> isl (validate_title x) \<longrightarrow>
        update_task m tid ttl descr due prio stat = (Inl ValueError, m))
     \<and> (\<forall>p. (\<forall>x. ttl = Some x \<longrightarrow> \<not> isl (validate_title x))
            \<and> prio = Some p \<and> isl (validate_priority p) \<longrightarrow>
        update_task m tid ttl descr due prio stat =
          (Inl ValueError,
           m\<lparr>objects := (objects m)
                [r := (objects m ! r)
                   \<lparr> title := (case ttl of None \<Rightarrow> title (objects m ! r)
                               | Some x \<Rightarrow> str_strip x),
                     description := (case descr of None \<Rightarrow> description (objects m ! r)
                                     | Some x \<Rightarrow> str_strip x),
                     due_date := (case due of None \<Rightarrow> due_date (objects m ! r)
                                  | Some d \<Rightarrow> d) \<rparr>]\<rparr>))
     \<and> (\<forall>s. (\<forall>x. ttl = Some x \<longrightarrow> \<not> isl (validate_title x))
            \<and> (\<forall>p. prio = Some p \<longrightarrow> \<not> isl (validate_priority p))
            \<and> stat = Some s \<and> isl (validate_status s) \<longrightarrow>
        update_task m tid ttl descr due prio stat =
          (Inl ValueError,
           m\<lparr>objects := (objects m)
                [r := (objects m ! r)
                   \<lparr> title := (case ttl of None \<Rightarrow> title (objects m ! r)
                               | Some x \<Rightarrow> str_strip x),
                     description := (case descr of None \<Rightarrow> description (objects m ! r)
                                     | Some x \<Rightarrow> str_strip x),
                     due_date := (case due of None \<Rightarrow> due_date (objects m ! r)
                                  | Some d \<Rightarrow> d),
                     priority := (case prio of None \<Rightarrow> priority (objects m ! r)
                                  | Some p \<Rightarrow> projr (validate_priority p)) \<rparr>]\<rparr>))"
proof (intro conjI allI impI)
  fix x assume "ttl = Some x \<and> isl (validate_title x)"
  then have x: "ttl = Some x" and "str_strip x = []"
    by (auto simp: validate_title_eq split: if_splits)
  then have "apply_updates (objects m ! r) ttl descr due prio stat
      = (Inl ValueError, objects m ! r)"
    by (simp add: apply_updates_title_fails)
  with assms show "update_task m tid ttl descr due prio stat = (Inl ValueError, m)"
    by (simp add: update_task_def)
next
  fix p
  assume h: "(\<forall>x. ttl = Some x \<longrightarrow> \<not> isl (validate_title x))
            \<and> prio = Some p \<and> isl (validate_priority p)"
  then have t: "\<forall>x. ttl = Some x \<longrightarrow> str_strip x \<noteq> []"
    by (auto simp: validate_title_eq)
  from h obtain e where e: "validate_priority p = Inl e"
    by (cases "validate_priority p") auto
  from h have "prio = Some p" by simp
  with assms apply_updates_priority_fails[OF t e, of "objects m ! r" descr due stat]
  show "update_task m tid ttl descr due prio stat =
          (Inl ValueError,
           m\<lparr>objects := (objects m)
                [r := (objects m ! r)
                   \<lparr> title := (case ttl of None \<Rightarrow> title (objects m ! r)
                               | Some x \<Rightarrow> str_strip x),
                     description := (case descr of None \<Rightarrow> description (objects m ! r)
                                     | Some x \<Rightarrow> str_strip x),
                     due_date := (case due of None \<Rightarrow> due_date (objects m ! r)
                                  | Some d \<Rightarrow> d) \<rparr>]\<rparr>)"
    by (simp add: update_task_def)
next
  fix s
  assume h: "(\<forall>x. ttl = Some x \<longrightarrow> \<not> isl (validate_title x))
            \<and> (\<forall>p. prio = Some p \<longrightarrow> \<not> isl (validate_priority p))
            \<and> stat = Some s \<and> isl (validate_status s)"
  then have t: "\<forall>x. ttl = Some x \<longrightarrow> str_strip x \<noteq> []"
    by (auto simp: validate_title_eq)
  from h have p: "\<forall>p. prio = Some p \<longrightarrow> \<not> isl (validate_priority p)" by simp
  from h obtain e where e: "validate_status s = Inl e"
    by (cases "validate_status s") auto
  from h have "stat = Some s" by simp
  with assms apply_updates_status_fails[OF t p e, of "objects m ! r" descr due]
  show "update_task m tid ttl descr due prio stat =
          (Inl ValueError,
           m\<lparr>objects := (objects m)
                [r := (objects m ! r)
                   \<lparr> title := (case ttl of None \<Rightarrow> title (objects m ! r)
                               | Some x \<Rightarrow> str_strip x),
                     description := (case descr of None \<Rightarrow> description (objects m ! r)
                                     | Some x \<Rightarrow> str_strip x),
                     due_date := (case due of None \<Rightarrow> due_date (objects m ! r)
                                  | Some d \<Rightarrow> d),
                     priority := (case prio of None \<Rightarrow> priority (objects m ! r)
                                  | Some p \<Rightarrow> projr (validate_priority p)) \<rparr>]\<rparr>)"
    by (simp add: update_task_def)
qed

theorem update_task_validation_failure_witness:
  "get_task sample_manager ''3f2a9c1e'' = Some 0 \<and> 0 < length (objects sample_manager)
   \<and> isl (validate_title ''   '')
   \<and> update_task sample_manager ''3f2a9c1e'' (Some ''   '') (Some ''x'') None None None
       = (Inl ValueError, sample_manager)
   \<and> \<not> isl (validate_title ''  Ship it '') \<and> isl (validate_priority ''Urgent'')
   \<and> update_task sample_manager ''3f2a9c1e'' (Some ''  Ship it '') (Some '' today '') None
         (Some ''Urgent'') (Some ''Completed'')
       = (Inl ValueError,
          sample_manager\<lparr>objects :=
            [sample_t1\<lparr>title := ''Ship it'', description := ''today''\<rparr>,
             sample_t2, sample_t3]\<rparr>)
   \<and> \<not> isl (validate_priority ''low'') \<and> isl (validate_status ''Done'')
   \<and> update_task sample_manager ''3f2a9c1e'' None None (Some ((2024, 2, 1), 12, 0, 0, 0))
         (Some ''low'') (Some ''Done'')
       = (Inl ValueError,
          sample_manager\<lparr>objects :=
            [sample_t1\<lparr>due_date := ((2024, 2, 1), 12, 0, 0, 0), priority := ''Low''\<rparr>,
             sample_t2, sample_t3]\<rparr>)"
proof -
  have g: "get_task sample_manager ''3f2a9c1e'' = Some 0" by code_simp
  have l: "0 < length (objects sample_manager)" by (simp add: sample_manager_def)
  have vt0: "validate_title ''   '' = Inl ValueError" by code_simp
  have vt: "validate_title ''  Ship it '' = Inr ''Ship it''" by code_simp
  have st: "str_strip ''  Ship it '' = ''Ship it''" by code_simp
  have sd: "str_strip '' today '' = ''today''" by code_simp
  have vp0: "validate_priority ''Urgent'' = Inl ValueError" by code_simp
  have vp: "validate_priority ''low'' = Inr ''Low''" by code_simp
  have vs0: "validate_status ''Done'' = Inl ValueError" by code_simp
  have o0: "objects sample_manager ! 0 = sample_t1"
    and os: "(objects sample_manager)[0 := t] = [t, sample_t2, sample_t3]" for t
    by (simp_all add: sample_manager_def)
  have hA: "Some ''   '' = Some ''   '' \<and> isl (validate_title ''   '')"
    by (simp add: vt0)
  have a: "update_task sample_manager ''3f2a9c1e'' (Some ''   '') (Some ''x'') None None None
       = (Inl ValueError, sample_manager)"
    by (rule update_task_validation_failure[OF g l, THEN conjunct1, rule_format, OF hA])
  have hB: "(\<forall>x. Some ''  Ship it '' = Some x \<longrightarrow> \<not> isl (validate_title x))
      \<and> Some ''Urgent'' = Some ''Urgent'' \<and> isl (validate_priority ''Urgent'')"
    by (simp add: vt vp0)
  have b: "update_task sample_manager ''3f2a9c1e'' (Some ''  Ship it '') (Some '' today '') None
         (Some ''Urgent'') (Some ''Completed'')
       = (Inl ValueError,
          sample_manager\<lparr>objects :=
            [sample_t1\<lparr>title := ''Ship it'', description := ''today''\<rparr>,
             sample_t2, sample_t3]\<rparr>)"
    using update_task_validation_failure[OF g l, THEN conjunct2, THEN conjunct1, rule_format,
        OF hB, of "Some '' today ''" None "Some ''Completed''"]
    by (simp add: o0 os st sd)
  have hC: "(\<forall>x. None = Some x \<longrightarrow> \<not> isl (validate_title x))
      \<and> (\<forall>p. Some ''low'' = Some p \<longrightarrow> \<not> isl (validate_priority p))
      \<and> Some ''Done'' = Some ''Done'' \<and> isl (validate_status ''Done'')"
    by (simp add: vp vs0)
  have c: "update_task sample_manager ''3f2a9c1e'' None None (Some ((2024, 2, 1), 12, 0, 0, 0))
         (Some ''low'') (Some ''Done'')
       = (Inl ValueError,
          sample_manager\<lparr>objects :=
            [sample_t1\<lparr>due_date := ((2024, 2, 1), 12, 0, 0, 0), priority := ''Low''\<rparr>,
             sample_t2, sample_t3]\<rparr>)"
    using update_task_validation_failure[OF g l, THEN conjunct2, THEN conjunct2, rule_format,
        OF hC, of None "Some ((2024, 2, 1), 12, 0, 0, 0)"]
    by (simp add: o0 os vp)
  from g l a b c show ?thesis by (simp add: vt0 vt vp0 vp vs0)
qed

lemma set_fields_status_only:
  "set_fields (empty_dict\<lparr>d_status := Some v\<rparr>) d = d\<lparr>d_status := Some v\<rparr>"
  by (simp add: set_fields_def empty_dict_def override_def)

lemma update_one_fails: "op_fails db \<Longrightarrow> update_one db tid u = Inl OperationFailure"
  by (simp add: update_one_def)

lemma update_one_no_match:
  "\<not> op_fails db \<Longrightarrow> dropWhile (\<lambda>d. d_task_id d \<noteq> Some tid) (documents db) = [] \<Longrightarrow>
   update_one db tid u = Inr (documents db, 0)"
  by (simp add: update_one_def Let_def del: dropWhile_eq_Nil_conv)

lemma update_one_match:
  "\<not> op_fails db \<Longrightarrow> dropWhile (\<lambda>d. d_task_id d \<noteq> Some tid) (documents db) = d # rest \<Longrightarrow>
   update_one db tid u =
     (if d_task_id (set_fields u d)
           \<in> set (map d_task_id (takeWhile (\<lambda>d. d_task_id d \<noteq> Some tid) (documents db) @ rest))
      then Inl DuplicateKeyError
      else Inr (takeWhile (\<lambda>d. d_task_id d \<noteq> Some tid) (documents db) @ set_fields u d # rest,
                if set_fields u d = d then 0 else 1))"
  by (simp add: update_one_def Let_def)

lemma db_update_status_only:
  assumes "db_update_task db tid (empty_dict\<lparr>d_status := Some v\<rparr>) = (out, db')"
  shows "map (\<lambda>d. d\<lparr>d_status := None\<rparr>) (documents db')
         = map (\<lambda>d. d\<lparr>d_status := None\<rparr>) (documents db)"
proof (cases "\<not> is_connected db \<or> op_fails db")
  case True
  with assms have "db' = db"
    by (auto simp: db_update_task_def update_one_fails split: if_splits)
  then show ?thesis by simp
next
  case False
  let ?P = "\<lambda>d. d_task_id d \<noteq> Some tid"
  show ?thesis
  proof (cases "dropWhile ?P (documents db)")
    case Nil
    with False assms have "db' = db"
      by (auto simp: db_update_task_def update_one_no_match simp del: dropWhile_eq_Nil_conv
          split: if_splits)
    then show ?thesis by simp
  next
    case (Cons d rest)
    have whole: "documents db = takeWhile ?P (documents db) @ d # rest"
      using Cons takeWhile_dropWhile_id[of ?P "documents db"] by simp
    have "documents db' = documents db \<or>
          documents db' = takeWhile ?P (documents db) @ d\<lparr>d_status := Some v\<rparr> # rest"
      using False assms
      by (auto simp: db_update_task_def update_one_match[OF _ Cons] set_fields_status_only
          split: if_splits)
    then show ?thesis
    proof
      assume "documents db' = documents db"
      then show ?thesis by simp
    next
      assume "documents db' = takeWhile ?P (documents db) @ d\<lparr>d_status := Some v\<rparr> # rest"
      then have "map (\<lambda>d. d\<lparr>d_status := None\<rparr>) (documents db')
          = map (\<lambda>d. d\<lparr>d_status := None\<rparr>) (takeWhile ?P (documents db) @ d # rest)"
        by simp
      with whole show ?thesis by simp
    qed
  qed
qed

lemma status_update_nonempty: "empty_dict\<lparr>d_status := Some v\<rparr> \<noteq> empty_dict"
proof
  assume "empty_dict\<lparr>d_status := Some v\<rparr> = empty_dict"
  then have "d_status (empty_dict\<lparr>d_status := Some v\<rparr>) = d_status empty_dict" by simp
  then show False by (simp add: empty_dict_def)
qed

lemma apply_updates_status_only:
  "validate_status s = Inr v \<Longrightarrow>
   apply_updates t None None None None (Some s)
   = (Inr (empty_dict\<lparr>d_status := Some v\<rparr>), t\<lparr>status := v\<rparr>)"
  by (simp add: apply_updates_def upd_title_eq upd_description_eq upd_due_date_eq
      upd_priority_eq upd_status_eq)

text \<open>
  C8.  Let the identifier resolve to a cached task and let the status text be valid.
  \<open>update_task\<close> with the status as its only field leaves title, description, due date,
  priority, creation time and id of the cached object as they were and sets its status to
  the validated value; no other object and no cache entry changes.  The dictionary written
  to the store holds the key \<open>status\<close> only, so the stored documents are as before up to
  their \<open>status\<close> fields.
\<close>

theorem update_task_status_only:
  assumes "get_task m tid = Some r" and "r < length (objects m)"
    and "validate_status s = Inr v"
  shows "\<exists>out m'.
           update_task m tid None None None None (Some s) = (out, m')
         \<and> title (objects m' ! r) = title (objects m ! r)
         \<and> description (objects m' ! r) = description (objects m ! r)
         \<and> due_date (objects m' ! r) = due_date (objects m ! r)
         \<and> priority (objects m' ! r) = priority (objects m ! r)
         \<and> created_at (objects m' ! r) = created_at (objects m ! r)
         \<and> task_id (objects m' ! r) = task_id (objects m ! r)
         \<and> status (objects m' ! r) = v
         \<and> (\<forall>r'. r' \<noteq> r \<longrightarrow> objects m' ! r' = objects m ! r')
         \<and> tasks_dict m' = tasks_dict m \<and> task_list m' = task_list m
         \<and> (out, db_handler m') =
             (case db_update_task (db_handler m) (task_id (objects m ! r))
                     (empty_dict\<lparr>d_status := Some v\<rparr>) of
                (Inl e, db') \<Rightarrow> (Inl Exception, db')
              | (Inr modified, db') \<Rightarrow> (Inr True, db'))
         \<and> map (\<lambda>d. d\<lparr>d_status := None\<rparr>) (documents (db_handler m'))
             = map (\<lambda>d. d\<lparr>d_status := None\<rparr>) (documents (db_handler m))"
proof -
  obtain res db' where w: "db_update_task (db_handler m) (task_id (objects m ! r))
      (empty_dict\<lparr>d_status := Some v\<rparr>) = (res, db')"
    by (cases "db_update_task (db_handler m) (task_id (objects m ! r))
      (empty_dict\<lparr>d_status := Some v\<rparr>)")
  define out :: "error + bool" where
    "out = (case res of Inl e \<Rightarrow> Inl Exception | Inr b \<Rightarrow> Inr True)"
  define m' where
    "m' = m\<lparr>objects := (objects m)[r := (objects m ! r)\<lparr>status := v\<rparr>], db_handler := db'\<rparr>"
  have run: "update_task m tid None None None None (Some s) = (out, m')"
    using assms w
    by (cases res)
       (simp_all add: update_task_def apply_updates_status_only status_update_nonempty
          out_def m'_def)
  have docs: "map (\<lambda>d. d\<lparr>d_status := None\<rparr>) (documents (db_handler m'))
             = map (\<lambda>d. d\<lparr>d_status := None\<rparr>) (documents (db_handler m))"
    using db_update_status_only[OF w] by (simp add: m'_def)
  have written: "(out, db_handler m') =
             (case db_update_task (db_handler m) (task_id (objects m ! r))
                     (empty_dict\<lparr>d_status := Some v\<rparr>) of
                (Inl e, db') \<Rightarrow> (Inl Exception, db')
              | (Inr modified, db') \<Rightarrow> (Inr True, db'))"
    by (cases res) (simp_all add: w out_def m'_def)
  have obj: "objects m' ! r = (objects m ! r)\<lparr>status := v\<rparr>"
    using assms(2) by (simp add: m'_def)
  have others: "\<forall>r'. r' \<noteq> r \<longrightarrow> objects m' ! r' = objects m ! r'"
    by (simp add: m'_def)
  have cache: "tasks_dict m' = tasks_dict m \<and> task_list m' = task_list m"
    by (simp add: m'_def)
  from run docs written others cache show ?thesis
    by (intro exI[of _ out] exI[of _ m']) (simp add: obj)
qed

theorem update_task_status_only_witness:
  "get_task sample_manager ''3f2a9c1e'' = Some 0 \<and> 0 < length (objects sample_manager)
   \<and> validate_status ''in progress'' = Inr ''In Progress''
   \<and> fst (update_task sample_manager ''3f2a9c1e'' None None None None (Some ''in progress''))
       = Inr True
   \<and> objects (snd (update_task sample_manager ''3f2a9c1e'' None None None None
                    (Some ''in progress''))) ! 0
       = sample_t1\<lparr>status := ''In Progress''\<rparr>
   \<and> documents (db_handler (snd (update_task sample_manager ''3f2a9c1e'' None None None None
                                  (Some ''in progress''))))
       = [(to_dict sample_t1)\<lparr>d_status := Some ''In Progress''\<rparr>, to_dict sample_t2,
          to_dict sample_t3]"
proof -
  have g: "get_task sample_manager ''3f2a9c1e'' = Some 0" by code_simp
  have l: "0 < length (objects sample_manager)" by (simp add: sample_manager_def)
  have vs: "validate_status ''in progress'' = Inr ''In Progress''" by code_simp
  let ?run = "update_task sample_manager ''3f2a9c1e'' None None None None (Some ''in progress'')"
  have o0: "objects sample_manager ! 0 = sample_t1" by (simp add: sample_manager_def)
  from update_task_status_only[OF g l vs] obtain out m' where
    run: "?run = (out, m')"
    and fr: "title (objects m' ! 0) = title (objects sample_manager ! 0)"
      "description (objects m' ! 0) = description (objects sample_manager ! 0)"
      "due_date (objects m' ! 0) = due_date (objects sample_manager ! 0)"
      "priority (objects m' ! 0) = priority (objects sample_manager ! 0)"
      "created_at (objects m' ! 0) = created_at (objects sample_manager ! 0)"
      "task_id (objects m' ! 0) = task_id (objects sample_manager ! 0)"
      "status (objects m' ! 0) = ''In Progress''"
    by blast
  from fr have "objects m' ! 0 = (objects sample_manager ! 0)\<lparr>status := ''In Progress''\<rparr>"
    by (intro task.equality) simp_all
  with run o0 have obj: "objects (snd ?run) ! 0 = sample_t1\<lparr>status := ''In Progress''\<rparr>"
    by simp
  have out: "fst ?run = Inr True" by code_simp
  have docs: "documents (db_handler (snd ?run))
       = [(to_dict sample_t1)\<lparr>d_status := Some ''In Progress''\<rparr>, to_dict sample_t2,
          to_dict sample_t3]"
    by code_simp
  from g l vs out obj docs show ?thesis by blast
qed

section \<open>Loading\<close>

lemma load_loop_objects: "objects (load_loop ts m) = objects m @ ts"
  by (induction ts arbitrary: m) simp_all

lemma load_loop_db_handler: "db_handler (load_loop ts m) = db_handler m"
  by (induction ts arbitrary: m) simp_all

lemma load_loop_task_list:
  "task_list (load_loop ts m)
   = task_list m @ [length (objects m) ..< length (objects m) + length ts]"
proof (induction ts arbitrary: m)
  case Nil
  then show ?case by simp
next
  case (Cons t ts)
  have "[length (objects m) ..< length (objects m) + length (t # ts)]
        = length (objects m) # [Suc (length (objects m)) ..< length (objects m) + length (t # ts)]"
    by (rule upt_conv_Cons) simp
  then show ?case by (simp add: Cons.IH del: upt_Suc)
qed

lemma map_of_dict_setitem: "map_of (dict_setitem d k v) = (map_of d)(k \<mapsto> v)"
  by (induction d k v rule: dict_setitem.induct) (auto simp: fun_eq_iff)

lemma find_snoc:
  "find P (xs @ [x]) = (case find P xs of Some y \<Rightarrow> Some y | None \<Rightarrow> if P x then Some x else None)"
  by (induction xs) simp_all

lemma set_dict_setitem: "set (dict_setitem d k v) \<subseteq> insert (k, v) (set d)"
  by (induction d k v rule: dict_setitem.induct) auto

lemma load_loop_lookup:
  assumes "\<forall>(k, r) \<in> set (tasks_dict m). r < length (objects m)"
  shows "map_option ((!) (objects (load_loop ts m))) (map_of (tasks_dict (load_loop ts m)) k)
         = (case find (\<lambda>t. task_id t = k) (rev ts) of
              Some t \<Rightarrow> Some t
            | None \<Rightarrow> map_option ((!) (objects m)) (map_of (tasks_dict m) k))"
  using assms
proof (induction ts arbitrary: m)
  case Nil
  then show ?case by simp
next
  case (Cons t ts)
  let ?n = "length (objects m)"
  let ?m1 = "m\<lparr> objects := objects m @ [t],
                tasks_dict := dict_setitem (tasks_dict m) (task_id t) ?n,
                task_list := task_list m @ [?n] \<rparr>"
  have refs: "\<forall>(k, r) \<in> set (tasks_dict ?m1). r < length (objects ?m1)"
  proof -
    have "r < Suc ?n" if "(k', r) \<in> set (dict_setitem (tasks_dict m) (task_id t) ?n)" for k' r
    proof -
      from that set_dict_setitem[of "tasks_dict m" "task_id t" ?n]
      have "(k', r) = (task_id t, ?n) \<or> (k', r) \<in> set (tasks_dict m)" by blast
      with Cons.prems show ?thesis by auto
    qed
    then show ?thesis by auto
  qed
  have old: "map_option ((!) (objects m @ [t])) (map_of (tasks_dict m) k)
             = map_option ((!) (objects m)) (map_of (tasks_dict m) k)"
  proof (cases "map_of (tasks_dict m) k")
    case None
    then show ?thesis by simp
  next
    case (Some r)
    then have "(k, r) \<in> set (tasks_dict m)" by (rule map_of_SomeD)
    with Cons.prems have "r < length (objects m)" by auto
    with Some show ?thesis by (simp add: nth_append)
  qed
  have "map_option ((!) (objects (load_loop (t # ts) m)))
          (map_of (tasks_dict (load_loop (t # ts) m)) k)
        = (case find (\<lambda>t. task_id t = k) (rev ts) of
             Some t' \<Rightarrow> Some t'
           | None \<Rightarrow> map_option ((!) (objects ?m1)) (map_of (tasks_dict ?m1) k))"
    using Cons.IH[OF refs] by simp
  also have "\<dots> = (case find (\<lambda>t. task_id t = k) (rev (t # ts)) of
              Some t \<Rightarrow> Some t
            | None \<Rightarrow> map_option ((!) (objects m)) (map_of (tasks_dict m) k))"
    using old by (simp add: find_snoc map_of_dict_setitem split: option.splits)
  finally show ?case .
qed

lemma nth_append_upt: "map ((!) (xs @ ys)) [length xs ..< length xs + length ys] = ys"
  by (rule nth_equalityI) (simp_all add: nth_append)

text \<open>What a successful scan of the store returns.\<close>

lemma from_dict_task_id: "from_dict now d = Inr t \<Longrightarrow> d_task_id d = Some (task_id t)"
  by (auto simp: from_dict_def Task_init_def split: option.splits)

lemma scan_results_Inr:
  "scan_results clock i docs acc = Inr ts \<Longrightarrow>
   \<exists>new. ts = acc @ new \<and> length new = length docs
        \<and> (\<forall>j<length docs. from_dict (clock (i + j)) (docs ! j) = Inr (new ! j))"
proof (induction docs arbitrary: i acc)
  case Nil
  then show ?case by simp
next
  case (Cons d docs)
  from Cons.prems obtain t where t: "from_dict (clock i) d = Inr t"
    and rest: "scan_results clock (Suc i) docs (acc @ [t]) = Inr ts"
    by (auto split: sum.splits)
  from Cons.IH[OF rest] obtain new where new: "ts = (acc @ [t]) @ new"
    "length new = length docs"
    "\<forall>j<length docs. from_dict (clock (Suc i + j)) (docs ! j) = Inr (new ! j)"
    by blast
  have "\<forall>j<length (d # docs). from_dict (clock (i + j)) ((d # docs) ! j) = Inr ((t # new) ! j)"
  proof (intro allI impI)
    fix j assume "j < length (d # docs)"
    then show "from_dict (clock (i + j)) ((d # docs) ! j) = Inr ((t # new) ! j)"
      using t new(3) by (cases j) simp_all
  qed
  with new(1,2) show ?case by (intro exI[of _ "t # new"]) simp
qed

lemma db_get_all_tasks_Inr:
  assumes "db_get_all_tasks clock db = Inr ts"
  shows "is_connected db \<and> \<not> op_fails db \<and> length ts = length (documents db)
       \<and> (\<forall>j<length (documents db). from_dict (clock j) (documents db ! j) = Inr (ts ! j))"
proof -
  from assms have c: "is_connected db" and o: "\<not> op_fails db"
    and s: "scan_results clock 0 (documents db) [] = Inr ts"
    by (auto simp: db_get_all_tasks_def find_all_def split: if_splits sum.splits)
  from scan_results_Inr[OF s] c o show ?thesis by auto
qed

lemma db_get_all_tasks_ids:
  assumes "db_get_all_tasks clock db = Inr ts"
  shows "map d_task_id (documents db) = map (\<lambda>t. Some (task_id t)) ts"
proof (rule nth_equalityI)
  from db_get_all_tasks_Inr[OF assms]
  show "length (map d_task_id (documents db)) = length (map (\<lambda>t. Some (task_id t)) ts)"
    by simp
next
  fix j assume "j < length (map d_task_id (documents db))"
  then have j: "j < length (documents db)" by simp
  with db_get_all_tasks_Inr[OF assms]
  have "from_dict (clock j) (documents db ! j) = Inr (ts ! j)" and "j < length ts" by auto
  with j from_dict_task_id
  show "map d_task_id (documents db) ! j = map (\<lambda>t. Some (task_id t)) ts ! j"
    by simp
qed

text \<open>
  C1, as the code has it.  \<open>load_tasks_from_db\<close> reads the full scan of the store first.
  If the read succeeds, it empties the cache and enters exactly the scanned tasks, one
  for each stored document in the order of the scan: the list holds them in that order,
  the dictionary maps each id to the last scanned task with that id, the count of the
  cache is the number of scanned tasks, and the call returns \<open>True\<close>, not the count.
  If the read fails, as it does with \<open>ConnectionError\<close> when the store is not connected,
  the call raises nothing: it returns \<open>False\<close> and leaves the cache as it was.
\<close>

theorem load_tasks_from_db_behaviour:
  "(\<forall>ts. db_get_all_tasks clock (db_handler m) = Inr ts \<longrightarrow>
      (\<exists>m'. load_tasks_from_db clock m = (Inr True, m')
           \<and> db_handler m' = db_handler m
           \<and> map ((!) (objects m')) (task_list m') = ts
           \<and> (\<forall>k. map_option ((!) (objects m')) (map_of (tasks_dict m') k)
                    = find (\<lambda>t. task_id t = k) (rev ts))
           \<and> get_task_count m' = length ts
           \<and> length ts = length (documents (db_handler m))
           \<and> (\<forall>j<length ts.
                  from_dict (clock j) (documents (db_handler m) ! j) = Inr (ts ! j))))
   \<and> (\<forall>e. db_get_all_tasks clock (db_handler m) = Inl e \<longrightarrow>
          load_tasks_from_db clock m = (Inr False, m))
   \<and> (\<not> is_connected (db_handler m) \<longrightarrow>
          db_get_all_tasks clock (db_handler m) = Inl ConnectionError)"
proof (intro conjI allI impI)
  fix ts assume scan: "db_get_all_tasks clock (db_handler m) = Inr ts"
  let ?m0 = "m\<lparr>tasks_dict := [], task_list := []\<rparr>"
  let ?m' = "load_loop ts ?m0"
  have run: "load_tasks_from_db clock m = (Inr True, ?m')"
    using scan by (simp add: load_tasks_from_db_def)
  have db: "db_handler ?m' = db_handler m" by (simp add: load_loop_db_handler)
  have lst: "map ((!) (objects ?m')) (task_list ?m') = ts"
    by (simp add: load_loop_objects load_loop_task_list nth_append_upt)
  have dict: "\<forall>k. map_option ((!) (objects ?m')) (map_of (tasks_dict ?m') k)
                    = find (\<lambda>t. task_id t = k) (rev ts)"
  proof
    fix k
    have "\<forall>(k, r) \<in> set (tasks_dict ?m0). r < length (objects ?m0)" by simp
    from load_loop_lookup[OF this, of ts k]
    show "map_option ((!) (objects ?m')) (map_of (tasks_dict ?m') k)
                    = find (\<lambda>t. task_id t = k) (rev ts)"
      by (simp split: option.splits)
  qed
  have cnt: "get_task_count ?m' = length ts"
    by (simp add: get_task_count_def load_loop_task_list)
  from db_get_all_tasks_Inr[OF scan]
  have full: "length ts = length (documents (db_handler m))
           \<and> (\<forall>j<length ts.
                  from_dict (clock j) (documents (db_handler m) ! j) = Inr (ts ! j))"
    by simp
  from run db lst dict cnt full
  show "\<exists>m'. load_tasks_from_db clock m = (Inr True, m')
           \<and> db_handler m' = db_handler m
           \<and> map ((!) (objects m')) (task_list m') = ts
           \<and> (\<forall>k. map_option ((!) (objects m')) (map_of (tasks_dict m') k)
                    = find (\<lambda>t. task_id t = k) (rev ts))
           \<and> get_task_count m' = length ts
           \<and> length ts = length (documents (db_handler m))
           \<and> (\<forall>j<length ts.
                  from_dict (clock j) (documents (db_handler m) ! j) = Inr (ts ! j))"
    by (intro exI[of _ ?m']) blast
next
  fix e assume "db_get_all_tasks clock (db_handler m) = Inl e"
  then show "load_tasks_from_db clock m = (Inr False, m)"
    by (simp add: load_tasks_from_db_def)
next
  assume "\<not> is_connected (db_handler m)"
  then show "db_get_all_tasks clock (db_handler m) = Inl ConnectionError"
    by (simp add: db_get_all_tasks_def)
qed

theorem load_tasks_from_db_behaviour_witness:
  "db_get_all_tasks sample_clock (db_handler (TaskManager_init sample_db))
     = Inr [sample_t1, sample_t2, sample_t3]
   \<and> load_tasks_from_db sample_clock (TaskManager_init sample_db) = (Inr True, sample_manager)
   \<and> get_task_count sample_manager = 3
   \<and> \<not> is_connected (db_handler sample_offline)
   \<and> db_get_all_tasks sample_clock (db_handler sample_offline) = Inl ConnectionError
   \<and> load_tasks_from_db sample_clock sample_offline = (Inr False, sample_offline)"
proof -
  note inst1 = load_tasks_from_db_behaviour[of sample_clock "TaskManager_init sample_db"]
  note inst2 = load_tasks_from_db_behaviour[of sample_clock sample_offline]
  have scan: "db_get_all_tasks sample_clock (db_handler (TaskManager_init sample_db))
     = Inr [sample_t1, sample_t2, sample_t3]"
    by code_simp
  have run: "load_tasks_from_db sample_clock (TaskManager_init sample_db)
     = (Inr True, sample_manager)"
    by code_simp
  from inst1 scan obtain m' where
    "load_tasks_from_db sample_clock (TaskManager_init sample_db) = (Inr True, m')"
    "get_task_count m' = length [sample_t1, sample_t2, sample_t3]"
    by blast
  with run have cnt: "get_task_count sample_manager = 3" by simp
  have off: "\<not> is_connected (db_handler sample_offline)"
    by (simp add: sample_offline_def is_connected_def)
  with inst2 have err: "db_get_all_tasks sample_clock (db_handler sample_offline)
      = Inl ConnectionError"
    by blast
  with inst2 have keep: "load_tasks_from_db sample_clock sample_offline
      = (Inr False, sample_offline)"
    by blast
  from scan run cnt off err keep show ?thesis by blast
qed

text \<open>
  C1 as stated fails: with the server down the read fails with \<open>ConnectionError\<close>, yet
  the call returns \<open>False\<close> instead of failing, and the three cached tasks remain.
\<close>

theorem load_tasks_from_db_returns_False:
  "db_get_all_tasks sample_clock (db_handler sample_offline) = Inl ConnectionError
   \<and> load_tasks_from_db sample_clock sample_offline = (Inr False, sample_offline)
   \<and> task_list sample_offline = [0, 1, 2]"
  by code_simp

section \<open>The cache invariant\<close>

lemma scan_prefix_in_dict: "scan_prefix p d = Some r \<Longrightarrow> \<exists>k. (k, r) \<in> set d"
  by (induction p d rule: scan_prefix.induct) (auto split: if_splits)

lemma get_task_in_dict: "get_task m tid = Some r \<Longrightarrow> \<exists>k. (k, r) \<in> set (tasks_dict m)"
  by (auto simp: get_task_def split: option.splits
      dest: map_of_SomeD scan_prefix_in_dict)

lemma dict_setitem_fresh: "k \<notin> fst ` set d \<Longrightarrow> dict_setitem d k v = d @ [(k, v)]"
  by (induction d k v rule: dict_setitem.induct) auto

text \<open>The steps of \<open>update_task\<close> never touch the id, and never put it into \<open>update_data\<close>.\<close>

lemma upd_title_frame:
  "upd_title a (t, u) = Inr (t', u') \<Longrightarrow> task_id t' = task_id t \<and> d_task_id u' = d_task_id u"
  by (auto simp: upd_title_eq split: option.splits if_splits)

lemma upd_description_frame:
  "upd_description a (t, u) = Inr (t', u') \<Longrightarrow>
   task_id t' = task_id t \<and> d_task_id u' = d_task_id u"
  by (auto simp: upd_description_eq split: option.splits)

lemma upd_due_date_frame:
  "upd_due_date a (t, u) = Inr (t', u') \<Longrightarrow>
   task_id t' = task_id t \<and> d_task_id u' = d_task_id u"
  by (auto simp: upd_due_date_eq split: option.splits)

lemma upd_priority_frame:
  "upd_priority a (t, u) = Inr (t', u') \<Longrightarrow>
   task_id t' = task_id t \<and> d_task_id u' = d_task_id u"
  by (auto simp: upd_priority_eq split: option.splits sum.splits)

lemma upd_status_frame:
  "upd_status a (t, u) = Inr (t', u') \<Longrightarrow>
   task_id t' = task_id t \<and> d_task_id u' = d_task_id u"
  by (auto simp: upd_status_eq split: option.splits sum.splits)

lemma apply_updates_frame:
  assumes "apply_updates t a b c d e = (res, t')"
  shows "task_id t' = task_id t \<and> (\<forall>u. res = Inr u \<longrightarrow> d_task_id u = None)"
proof (cases "upd_title a (t, empty_dict)")
  case (Inl x)
  with assms show ?thesis by (auto simp: apply_updates_def)
next
  case (Inr p1)
  obtain t1 u1 where p1: "p1 = (t1, u1)" by (cases p1)
  note s1 = upd_title_frame[OF Inr[unfolded p1]]
  show ?thesis
  proof (cases "upd_description b (t1, u1)")
    case (Inl x)
    with assms Inr p1 s1 show ?thesis by (auto simp: apply_updates_def)
  next
    case Inr2: (Inr p2)
    obtain t2 u2 where p2: "p2 = (t2, u2)" by (cases p2)
    note s2 = upd_description_frame[OF Inr2[unfolded p2]]
    show ?thesis
    proof (cases "upd_due_date c (t2, u2)")
      case (Inl x)
      with assms Inr p1 s1 Inr2 p2 s2 show ?thesis by (auto simp: apply_updates_def)
    next
      case Inr3: (Inr p3)
      obtain t3 u3 where p3: "p3 = (t3, u3)" by (cases p3)
      note s3 = upd_due_date_frame[OF Inr3[unfolded p3]]
      show ?thesis
      proof (cases "upd_priority d (t3, u3)")
        case (Inl x)
        with assms Inr p1 s1 Inr2 p2 s2 Inr3 p3 s3 show ?thesis
          by (auto simp: apply_updates_def)
      next
        case Inr4: (Inr p4)
        obtain t4 u4 where p4: "p4 = (t4, u4)" by (cases p4)
        note s4 = upd_priority_frame[OF Inr4[unfolded p4]]
        show ?thesis
        proof (cases "upd_status e (t4, u4)")
          case (Inl x)
          with assms Inr p1 s1 Inr2 p2 s2 Inr3 p3 s3 Inr4 p4 s4 show ?thesis
            by (auto simp: apply_updates_def)
        next
          case Inr5: (Inr p5)
          obtain t5 u5 where p5: "p5 = (t5, u5)" by (cases p5)
          note s5 = upd_status_frame[OF Inr5[unfolded p5]]
          from assms Inr p1 s1 Inr2 p2 s2 Inr3 p3 s3 Inr4 p4 s4 Inr5 p5 s5 show ?thesis
            by (auto simp: apply_updates_def empty_dict_def)
        qed
      qed
    qed
  qed
qed

text \<open>The store's side of each operation.\<close>

lemma insert_task_cases:
  assumes "insert_task db t = (res, db')"
  shows "(res = Inr True \<and> Some (task_id t) \<notin> set (map d_task_id (documents db))
            \<and> documents db' = documents db @ [to_dict t])
         \<or> ((\<exists>e. res = Inl e) \<and> db' = db)"
  using assms
  by (auto simp: insert_task_def insert_one_def to_dict_def
      split: if_splits sum.splits mongo_error.splits)

lemma db_update_task_ids:
  assumes "db_update_task db tid u = (res, db')" and "d_task_id u = None"
  shows "map d_task_id (documents db') = map d_task_id (documents db)"
proof (cases "\<not> is_connected db \<or> op_fails db")
  case True
  with assms have "db' = db"
    by (auto simp: db_update_task_def update_one_fails split: if_splits)
  then show ?thesis by simp
next
  case False
  let ?P = "\<lambda>d. d_task_id d \<noteq> Some tid"
  show ?thesis
  proof (cases "dropWhile ?P (documents db)")
    case Nil
    with False assms have "db' = db"
      by (auto simp: db_update_task_def update_one_no_match simp del: dropWhile_eq_Nil_conv
          split: if_splits)
    then show ?thesis by simp
  next
    case (Cons d rest)
    have whole: "documents db = takeWhile ?P (documents db) @ d # rest"
      using Cons takeWhile_dropWhile_id[of ?P "documents db"] by simp
    have same: "d_task_id (set_fields u d) = d_task_id d"
      using assms(2) by (simp add: set_fields_def override_def)
    have "documents db' = documents db \<or>
          documents db' = takeWhile ?P (documents db) @ set_fields u d # rest"
      using False assms(1)
      by (auto simp: db_update_task_def update_one_match[OF _ Cons] split: if_splits)
    then show ?thesis
    proof
      assume "documents db' = documents db"
      then show ?thesis by simp
    next
      assume "documents db' = takeWhile ?P (documents db) @ set_fields u d # rest"
      then have "map d_task_id (documents db')
          = map d_task_id (takeWhile ?P (documents db) @ d # rest)"
        by (simp add: same)
      with whole show ?thesis by simp
    qed
  qed
qed

lemma db_delete_task_cases:
  assumes "db_delete_task db tid = (res, db')"
  shows "((\<exists>e. res = Inl e) \<and> db' = db)
         \<or> ((\<exists>b. res = Inr b)
             \<and> documents db' = takeWhile (\<lambda>d. d_task_id d \<noteq> Some tid) (documents db)
                                @ tl (dropWhile (\<lambda>d. d_task_id d \<noteq> Some tid) (documents db)))"
proof (cases "\<not> is_connected db \<or> op_fails db")
  case True
  with assms show ?thesis
    by (auto simp: db_delete_task_def delete_one_def split: if_splits)
next
  case False
  then have d: "delete_one db tid =
      (case dropWhile (\<lambda>d. d_task_id d \<noteq> Some tid) (documents db) of
         [] \<Rightarrow> Inr (documents db, 0)
       | d # after \<Rightarrow>
           Inr (takeWhile (\<lambda>d. d_task_id d \<noteq> Some tid) (documents db) @ after, 1))"
    by (simp add: delete_one_def Let_def)
  show ?thesis
  proof (cases "dropWhile (\<lambda>d. d_task_id d \<noteq> Some tid) (documents db)")
    case Nil
    then have "takeWhile (\<lambda>d. d_task_id d \<noteq> Some tid) (documents db) = documents db"
      by (metis append_Nil2 takeWhile_dropWhile_id)
    with Nil False assms d show ?thesis
      by (auto simp: db_delete_task_def simp del: dropWhile_eq_Nil_conv takeWhile_eq_all_conv)
  next
    case (Cons x rest)
    with False assms d show ?thesis
      by (auto simp: db_delete_task_def)
  qed
qed

lemma remove_first_ids:
  assumes "distinct (map f xs)"
    and ys_def: "ys = takeWhile (\<lambda>d. f d \<noteq> x) xs @ tl (dropWhile (\<lambda>d. f d \<noteq> x) xs)"
  shows "distinct (map f ys) \<and> set (map f ys) = set (map f xs) - {x}"
proof (cases "dropWhile (\<lambda>d. f d \<noteq> x) xs")
  case Nil
  then have all: "\<forall>d \<in> set xs. f d \<noteq> x" by simp
  then have "takeWhile (\<lambda>d. f d \<noteq> x) xs = xs" by simp
  with Nil have "ys = xs" by (simp add: ys_def del: dropWhile_eq_Nil_conv)
  with assms(1) all show ?thesis by auto
next
  case (Cons d rest)
  let ?tw = "takeWhile (\<lambda>d. f d \<noteq> x) xs"
  have whole: "xs = ?tw @ d # rest"
    using Cons takeWhile_dropWhile_id[of "\<lambda>d. f d \<noteq> x" xs] by simp
  have "\<not> f d \<noteq> x"
    using hd_dropWhile[of "\<lambda>d. f d \<noteq> x" xs] Cons by simp
  then have fd: "f d = x" by simp
  have ys: "ys = ?tw @ rest" by (simp add: ys_def Cons)
  have dist: "distinct (map f (?tw @ d # rest))" using assms(1) whole by simp
  then have "distinct (map f (?tw @ rest))" by auto
  moreover from dist fd have "x \<notin> set (map f (?tw @ rest))" by auto
  moreover have "set (map f xs) = insert x (set (map f (?tw @ rest)))"
    using whole fd by (metis (no_types, lifting) list.simps(15) list.simps(9) map_append
        set_append Un_insert_right)
  ultimately show ?thesis using ys by auto
qed

lemma count_list_distinct: "distinct xs \<Longrightarrow> x \<in> set xs \<Longrightarrow> count_list xs x = 1"
  by (induction xs) (auto simp: count_list_0_iff)

lemma distinct_map_Some: "distinct (map Some xs) = distinct xs"
  by (induction xs) auto

lemma repo_inv_cache_agree:
  assumes "repo_inv m"
  shows "cache_agree m"
proof -
  from assms have dk: "distinct (map fst (tasks_dict m))"
    and ml: "map snd (tasks_dict m) = task_list m"
    and dl: "distinct (task_list m)"
    and en: "\<forall>(k, r) \<in> set (tasks_dict m). r < length (objects m) \<and> task_id (objects m ! r) = k"
    by (simp_all add: repo_inv_def)
  have a: "\<forall>r \<in> set (task_list m). map_of (tasks_dict m) (task_id (objects m ! r)) = Some r"
  proof
    fix r assume "r \<in> set (task_list m)"
    with ml have "r \<in> snd ` set (tasks_dict m)" by (metis set_map)
    then obtain k where k: "(k, r) \<in> set (tasks_dict m)" by force
    with en have "task_id (objects m ! r) = k" by auto
    with k dk show "map_of (tasks_dict m) (task_id (objects m ! r)) = Some r" by simp
  qed
  have b: "\<forall>(k, r) \<in> set (tasks_dict m). count_list (task_list m) r = 1"
  proof (intro ballI, clarify)
    fix k r assume "(k, r) \<in> set (tasks_dict m)"
    then have "r \<in> snd ` set (tasks_dict m)" by force
    with ml have "r \<in> set (task_list m)" by (metis set_map)
    with dl show "count_list (task_list m) r = 1" by (rule count_list_distinct)
  qed
  have c: "length (tasks_dict m) = length (task_list m)"
    using ml by (metis length_map)
  from a b c show ?thesis by (simp add: cache_agree_def)
qed

lemma repo_inv_init:
  "distinct (map d_task_id (documents db)) \<Longrightarrow> repo_inv (TaskManager_init db)"
  by (simp add: repo_inv_def TaskManager_init_def)

lemma repo_inv_connectivity:
  "repo_inv m \<Longrightarrow> repo_inv (m\<lparr>db_handler := (db_handler m)\<lparr>server_up := up, op_fails := fails\<rparr>\<rparr>)"
  by (simp add: repo_inv_def)

text \<open>Loading.\<close>

lemma load_loop_fresh:
  assumes "distinct (map task_id ts)"
    and "set (map task_id ts) \<inter> fst ` set (tasks_dict m) = {}"
  shows "tasks_dict (load_loop ts m)
         = tasks_dict m @ zip (map task_id ts)
                            [length (objects m) ..< length (objects m) + length ts]"
  using assms
proof (induction ts arbitrary: m)
  case Nil
  then show ?case by simp
next
  case (Cons t ts)
  let ?n = "length (objects m)"
  let ?m1 = "m\<lparr> objects := objects m @ [t],
                tasks_dict := dict_setitem (tasks_dict m) (task_id t) ?n,
                task_list := task_list m @ [?n] \<rparr>"
  from Cons.prems have fresh: "task_id t \<notin> fst ` set (tasks_dict m)" by auto
  then have d1: "tasks_dict ?m1 = tasks_dict m @ [(task_id t, ?n)]"
    by (simp add: dict_setitem_fresh)
  have "set (map task_id ts) \<inter> fst ` set (tasks_dict ?m1) = {}"
    using Cons.prems d1 by auto
  moreover from Cons.prems have "distinct (map task_id ts)" by simp
  ultimately have "tasks_dict (load_loop ts ?m1)
      = tasks_dict ?m1 @ zip (map task_id ts)
                          [length (objects ?m1) ..< length (objects ?m1) + length ts]"
    by (rule Cons.IH[rotated])
  moreover have "[?n ..< ?n + length (t # ts)] = ?n # [Suc ?n ..< ?n + length (t # ts)]"
    by (rule upt_conv_Cons) simp
  ultimately show ?case using d1 by (simp del: upt_Suc)
qed

lemma repo_inv_load:
  assumes "repo_inv m"
  shows "repo_inv (snd (load_tasks_from_db clock m))"
proof (cases "db_get_all_tasks clock (db_handler m)")
  case (Inl e)
  with assms show ?thesis by (simp add: load_tasks_from_db_def)
next
  case (Inr ts)
  let ?n = "length (objects m)"
  let ?m0 = "m\<lparr>tasks_dict := [], task_list := []\<rparr>"
  let ?m' = "load_loop ts ?m0"
  let ?ids = "map task_id ts"
  let ?idx = "[?n ..< ?n + length ts]"
  from assms have sd: "distinct (map d_task_id (documents (db_handler m)))"
    by (simp add: repo_inv_def)
  have stored: "map d_task_id (documents (db_handler m)) = map Some ?ids"
    using db_get_all_tasks_ids[OF Inr] by simp
  with sd have "distinct (map Some ?ids)" by (simp only:)
  then have dids: "distinct ?ids" by (simp only: distinct_map_Some)
  have dict: "tasks_dict ?m' = zip ?ids ?idx"
    using load_loop_fresh[OF dids, of ?m0] by simp
  have lst: "task_list ?m' = ?idx" by (simp add: load_loop_task_list)
  have objs: "objects ?m' = objects m @ ts" by (simp add: load_loop_objects)
  have db: "db_handler ?m' = db_handler m" by (simp add: load_loop_db_handler)
  have entries: "\<forall>(k, r) \<in> set (tasks_dict ?m').
       r < length (objects ?m') \<and> task_id (objects ?m' ! r) = k"
  proof (intro ballI, clarify)
    fix k r assume "(k, r) \<in> set (tasks_dict ?m')"
    with dict have "(k, r) \<in> set (zip ?ids ?idx)" by simp
    then obtain i where i: "i < length ts" "k = ?ids ! i" "r = ?idx ! i"
      by (auto simp: in_set_zip)
    then have r: "r = ?n + i" by simp
    with i objs show "r < length (objects ?m') \<and> task_id (objects ?m' ! r) = k"
      by (simp add: nth_append)
  qed
  have keys: "\<forall>k \<in> fst ` set (tasks_dict ?m').
       Some k \<in> set (map d_task_id (documents (db_handler ?m')))"
  proof
    fix k assume "k \<in> fst ` set (tasks_dict ?m')"
    with dict have "k \<in> set ?ids" by (metis map_fst_zip length_map length_upt add_diff_cancel_left' set_map)
    then show "Some k \<in> set (map d_task_id (documents (db_handler ?m')))"
      using stored db by auto
  qed
  have "repo_inv ?m'"
    unfolding repo_inv_def
  proof (intro conjI)
    show "distinct (map fst (tasks_dict ?m'))" using dict dids by simp
    show "map snd (tasks_dict ?m') = task_list ?m'" using dict lst by simp
    show "distinct (task_list ?m')" using lst by simp
    show "\<forall>(k, r) \<in> set (tasks_dict ?m').
       r < length (objects ?m') \<and> task_id (objects ?m' ! r) = k" by (rule entries)
    show "distinct (map d_task_id (documents (db_handler ?m')))" using sd db by simp
    show "\<forall>k \<in> fst ` set (tasks_dict ?m').
       Some k \<in> set (map d_task_id (documents (db_handler ?m')))" by (rule keys)
  qed
  with Inr show ?thesis by (simp add: load_tasks_from_db_def)
qed

text \<open>Adding.\<close>

lemma add_task_state:
  "snd (add_task now new_id m ttl descr due prio stat) = m
   \<or> (\<exists>t db'. task_id t = new_id
         \<and> insert_task (db_handler m) t = (Inr True, db')
         \<and> snd (add_task now new_id m ttl descr due prio stat)
             = m\<lparr> db_handler := db',
                   objects := objects m @ [t],
                   tasks_dict := dict_setitem (tasks_dict m) new_id (length (objects m)),
                   task_list := task_list m @ [length (objects m)] \<rparr>)"
proof (cases "validate_title ttl")
  case (Inl e)
  then show ?thesis by (simp add: add_task_def)
next
  case ttl': (Inr ttl')
  show ?thesis
  proof (cases "validate_priority prio")
    case (Inl e)
    with ttl' show ?thesis by (simp add: add_task_def)
  next
    case prio': (Inr prio')
    show ?thesis
    proof (cases "validate_status (case stat of None \<Rightarrow> ''Pending'' | Some s \<Rightarrow> s)")
      case (Inl e)
      with ttl' prio' show ?thesis by (simp add: add_task_def)
    next
      case stat': (Inr stat')
      define t where "t = \<lparr> task_id = new_id, title = ttl',
          description = validate_description (Some descr), due_date = due, priority = prio',
          status = stat', created_at = now \<rparr>"
      have init: "Task_init now new_id ttl' (validate_description (Some descr)) due prio'
          (Some stat') None = Inr t"
        by (simp add: Task_init_def t_def)
      obtain res db' where ins: "insert_task (db_handler m) t = (res, db')"
        by (cases "insert_task (db_handler m) t")
      from insert_task_cases[OF ins] show ?thesis
      proof
        assume ok: "res = Inr True \<and> Some (task_id t) \<notin> set (map d_task_id (documents (db_handler m)))
            \<and> documents db' = documents (db_handler m) @ [to_dict t]"
        have "task_id t = new_id" by (simp add: t_def)
        moreover from ok ins have "insert_task (db_handler m) t = (Inr True, db')" by simp
        moreover from this have "snd (add_task now new_id m ttl descr due prio stat)
             = m\<lparr> db_handler := db',
                   objects := objects m @ [t],
                   tasks_dict := dict_setitem (tasks_dict m) new_id (length (objects m)),
                   task_list := task_list m @ [length (objects m)] \<rparr>"
          using ttl' prio' stat' init by (simp add: add_task_def)
        ultimately show ?thesis by blast
      next
        assume "(\<exists>e. res = Inl e) \<and> db' = db_handler m"
        then obtain e where "res = Inl e" and "db' = db_handler m" by blast
        with ins have "snd (add_task now new_id m ttl descr due prio stat) = m"
          using ttl' prio' stat' init by (cases e) (simp_all add: add_task_def)
        then show ?thesis by simp
      qed
    qed
  qed
qed

lemma repo_inv_add:
  assumes "repo_inv m"
  shows "repo_inv (snd (add_task now new_id m ttl descr due prio stat))"
proof -
  from add_task_state[of now new_id m ttl descr due prio stat] show ?thesis
  proof
    assume "snd (add_task now new_id m ttl descr due prio stat) = m"
    with assms show ?thesis by simp
  next
    assume "\<exists>t db'. task_id t = new_id
         \<and> insert_task (db_handler m) t = (Inr True, db')
         \<and> snd (add_task now new_id m ttl descr due prio stat)
             = m\<lparr> db_handler := db',
                   objects := objects m @ [t],
                   tasks_dict := dict_setitem (tasks_dict m) new_id (length (objects m)),
                   task_list := task_list m @ [length (objects m)] \<rparr>"
    then obtain t db' where t: "task_id t = new_id"
      and ins: "insert_task (db_handler m) t = (Inr True, db')"
      and st: "snd (add_task now new_id m ttl descr due prio stat)
             = m\<lparr> db_handler := db',
                   objects := objects m @ [t],
                   tasks_dict := dict_setitem (tasks_dict m) new_id (length (objects m)),
                   task_list := task_list m @ [length (objects m)] \<rparr>"
      by blast
    let ?n = "length (objects m)"
    from insert_task_cases[OF ins] t
    have unstored: "Some new_id \<notin> set (map d_task_id (documents (db_handler m)))"
      and docs: "documents db' = documents (db_handler m) @ [to_dict t]"
      by auto
    from assms have dk: "distinct (map fst (tasks_dict m))"
      and ml: "map snd (tasks_dict m) = task_list m"
      and dl: "distinct (task_list m)"
      and en: "\<forall>(k, r) \<in> set (tasks_dict m).
                  r < length (objects m) \<and> task_id (objects m ! r) = k"
      and sd: "distinct (map d_task_id (documents (db_handler m)))"
      and ks: "\<forall>k \<in> fst ` set (tasks_dict m).
                  Some k \<in> set (map d_task_id (documents (db_handler m)))"
      by (simp_all add: repo_inv_def)
    from ks unstored have fresh: "new_id \<notin> fst ` set (tasks_dict m)" by blast
    then have dict: "dict_setitem (tasks_dict m) new_id ?n = tasks_dict m @ [(new_id, ?n)]"
      by (rule dict_setitem_fresh)
    have nref: "?n \<notin> set (task_list m)"
    proof
      assume "?n \<in> set (task_list m)"
      with ml have "?n \<in> snd ` set (tasks_dict m)" by (metis set_map)
      then obtain k where "(k, ?n) \<in> set (tasks_dict m)" by force
      with en show False by auto
    qed
    let ?m' = "m\<lparr> db_handler := db',
                 objects := objects m @ [t],
                 tasks_dict := tasks_dict m @ [(new_id, ?n)],
                 task_list := task_list m @ [?n] \<rparr>"
    have "repo_inv ?m'"
      unfolding repo_inv_def
    proof (intro conjI)
      show "distinct (map fst (tasks_dict ?m'))"
        using dk fresh by simp
      show "map snd (tasks_dict ?m') = task_list ?m'"
        using ml by simp
      show "distinct (task_list ?m')"
        using dl nref by simp
      show "\<forall>(k, r) \<in> set (tasks_dict ?m').
              r < length (objects ?m') \<and> task_id (objects ?m' ! r) = k"
        using en t by (auto simp: nth_append)
      show "distinct (map d_task_id (documents (db_handler ?m')))"
        using sd docs unstored t by (simp add: to_dict_def)
      show "\<forall>k \<in> fst ` set (tasks_dict ?m').
              Some k \<in> set (map d_task_id (documents (db_handler ?m')))"
        using ks docs t by (auto simp: to_dict_def)
    qed
    with st dict show ?thesis by simp
  qed
qed

text \<open>Updating.\<close>

lemma update_task_state:
  "snd (update_task m tid ttl descr due prio stat) = m
   \<or> (\<exists>k r t' db'. (k, r) \<in> set (tasks_dict m)
         \<and> task_id t' = task_id (objects m ! r)
         \<and> map d_task_id (documents db') = map d_task_id (documents (db_handler m))
         \<and> snd (update_task m tid ttl descr due prio stat)
             = m\<lparr>objects := (objects m)[r := t'], db_handler := db'\<rparr>)"
proof (cases "get_task m tid")
  case None
  then show ?thesis by (simp add: update_task_def)
next
  case (Some r)
  from get_task_in_dict[OF Some] obtain k where k: "(k, r) \<in> set (tasks_dict m)" ..
  obtain res t' where au: "apply_updates (objects m ! r) ttl descr due prio stat = (res, t')"
    by (cases "apply_updates (objects m ! r) ttl descr due prio stat")
  from apply_updates_frame[OF au] have tid: "task_id t' = task_id (objects m ! r)"
    and noid: "\<forall>u. res = Inr u \<longrightarrow> d_task_id u = None"
    by simp_all
  have "\<exists>db'. map d_task_id (documents db') = map d_task_id (documents (db_handler m))
         \<and> snd (update_task m tid ttl descr due prio stat)
             = m\<lparr>objects := (objects m)[r := t'], db_handler := db'\<rparr>"
  proof (cases res)
    case (Inl e)
    with Some au show ?thesis
      by (intro exI[of _ "db_handler m"]) (simp add: update_task_def)
  next
    case (Inr u)
    show ?thesis
    proof (cases "u = empty_dict")
      case True
      with Inr Some au show ?thesis
        by (intro exI[of _ "db_handler m"]) (simp add: update_task_def)
    next
      case False
      obtain wres db' where w: "db_update_task (db_handler m) (task_id (objects m ! r)) u
          = (wres, db')"
        by (cases "db_update_task (db_handler m) (task_id (objects m ! r)) u")
      from noid Inr have "d_task_id u = None" by simp
      from db_update_task_ids[OF w this]
      have ids: "map d_task_id (documents db') = map d_task_id (documents (db_handler m))" .
      have "snd (update_task m tid ttl descr due prio stat)
             = m\<lparr>objects := (objects m)[r := t'], db_handler := db'\<rparr>"
        using Some au Inr False w by (cases wres) (simp_all add: update_task_def)
      with ids show ?thesis by blast
    qed
  qed
  with k tid show ?thesis by blast
qed

lemma repo_inv_update:
  assumes "repo_inv m"
  shows "repo_inv (snd (update_task m tid ttl descr due prio stat))"
proof -
  from update_task_state[of m tid ttl descr due prio stat] show ?thesis
  proof
    assume "snd (update_task m tid ttl descr due prio stat) = m"
    with assms show ?thesis by simp
  next
    assume "\<exists>k r t' db'. (k, r) \<in> set (tasks_dict m)
         \<and> task_id t' = task_id (objects m ! r)
         \<and> map d_task_id (documents db') = map d_task_id (documents (db_handler m))
         \<and> snd (update_task m tid ttl descr due prio stat)
             = m\<lparr>objects := (objects m)[r := t'], db_handler := db'\<rparr>"
    then obtain k r t' db' where k: "(k, r) \<in> set (tasks_dict m)"
      and t': "task_id t' = task_id (objects m ! r)"
      and ids: "map d_task_id (documents db') = map d_task_id (documents (db_handler m))"
      and st: "snd (update_task m tid ttl descr due prio stat)
             = m\<lparr>objects := (objects m)[r := t'], db_handler := db'\<rparr>"
      by blast
    from assms have en: "\<forall>(k, r) \<in> set (tasks_dict m).
                  r < length (objects m) \<and> task_id (objects m ! r) = k"
      by (simp add: repo_inv_def)
    have en': "\<forall>(k', r') \<in> set (tasks_dict m).
                  r' < length ((objects m)[r := t']) \<and> task_id ((objects m)[r := t'] ! r') = k'"
    proof (intro ballI, clarify)
      fix k' r' assume kr: "(k', r') \<in> set (tasks_dict m)"
      with en have r': "r' < length (objects m)" and id': "task_id (objects m ! r') = k'"
        by auto
      show "r' < length ((objects m)[r := t']) \<and> task_id ((objects m)[r := t'] ! r') = k'"
      proof (cases "r' = r")
        case True
        with r' id' t' show ?thesis by simp
      next
        case False
        with r' id' show ?thesis by simp
      qed
    qed
    from assms en' ids have "repo_inv (m\<lparr>objects := (objects m)[r := t'], db_handler := db'\<rparr>)"
      by (simp add: repo_inv_def)
    with st show ?thesis by simp
  qed
qed

lemma repo_inv_mark_completed:
  "repo_inv m \<Longrightarrow> repo_inv (snd (mark_completed m tid))"
  by (simp add: mark_completed_def repo_inv_update)

text \<open>Deleting.\<close>

lemma repo_inv_delete:
  assumes "repo_inv m"
  shows "repo_inv (snd (delete_task m tid))"
proof (cases "get_task m tid")
  case None
  with assms show ?thesis by (simp add: delete_task_def)
next
  case (Some r)
  from get_task_in_dict[OF Some] obtain k where k: "(k, r) \<in> set (tasks_dict m)" ..
  from assms have dk: "distinct (map fst (tasks_dict m))"
    and ml: "map snd (tasks_dict m) = task_list m"
    and dl: "distinct (task_list m)"
    and en: "\<forall>(k, r) \<in> set (tasks_dict m).
                r < length (objects m) \<and> task_id (objects m ! r) = k"
    and sd: "distinct (map d_task_id (documents (db_handler m)))"
    and ks: "\<forall>k \<in> fst ` set (tasks_dict m).
                Some k \<in> set (map d_task_id (documents (db_handler m)))"
    by (simp_all add: repo_inv_def)
  from k en have full: "task_id (objects m ! r) = k" by auto
  from k have key: "k \<in> set (map fst (tasks_dict m))" by force
  obtain res db' where del: "db_delete_task (db_handler m) k = (res, db')"
    by (cases "db_delete_task (db_handler m) k")
  from db_delete_task_cases[OF del] show ?thesis
  proof
    assume "(\<exists>e. res = Inl e) \<and> db' = db_handler m"
    then obtain e where "res = Inl e" and "db' = db_handler m" by blast
    with Some full del have "snd (delete_task m tid) = m"
      by (simp add: delete_task_def)
    with assms show ?thesis by simp
  next
    assume "(\<exists>b. res = Inr b)
             \<and> documents db' = takeWhile (\<lambda>d. d_task_id d \<noteq> Some k) (documents (db_handler m))
                  @ tl (dropWhile (\<lambda>d. d_task_id d \<noteq> Some k) (documents (db_handler m)))"
    then obtain b where b: "res = Inr b"
      and docs: "documents db' = takeWhile (\<lambda>d. d_task_id d \<noteq> Some k) (documents (db_handler m))
                  @ tl (dropWhile (\<lambda>d. d_task_id d \<noteq> Some k) (documents (db_handler m)))"
      by blast
    from remove_first_ids[OF sd docs]
    have sd': "distinct (map d_task_id (documents db'))"
      and ids': "set (map d_task_id (documents db'))
                 = set (map d_task_id (documents (db_handler m))) - {Some k}"
      by simp_all
    let ?dict' = "dict_delitem (tasks_dict m) k"
    let ?list' = "filter (\<lambda>t. task_id (objects m ! t) \<noteq> k) (task_list m)"
    have st: "snd (delete_task m tid)
        = m\<lparr>db_handler := db', tasks_dict := ?dict', task_list := ?list'\<rparr>"
      using Some full del b key by (simp add: delete_task_def)
    have same: "filter (\<lambda>kr. task_id (objects m ! snd kr) \<noteq> k) (tasks_dict m)
                = filter (\<lambda>(k', v). k' \<noteq> k) (tasks_dict m)"
      using en by (intro filter_cong) auto
    have ml': "map snd ?dict' = ?list'"
    proof -
      have "?list' = filter (\<lambda>t. task_id (objects m ! t) \<noteq> k) (map snd (tasks_dict m))"
        using ml by simp
      also have "\<dots> = map snd (filter (\<lambda>kr. task_id (objects m ! snd kr) \<noteq> k) (tasks_dict m))"
        by (simp add: filter_map o_def)
      also have "\<dots> = map snd ?dict'"
        by (simp add: same dict_delitem_def)
      finally show ?thesis by simp
    qed
    have dk': "distinct (map fst ?dict')"
      using dk by (simp add: dict_delitem_def distinct_map_filter)
    have dl': "distinct ?list'" using dl by simp
    have sub: "set ?dict' \<subseteq> set (tasks_dict m)" by (auto simp: dict_delitem_def)
    have en': "\<forall>(k', r') \<in> set ?dict'.
                r' < length (objects m) \<and> task_id (objects m ! r') = k'"
      using en sub by blast
    have ks': "\<forall>k' \<in> fst ` set ?dict'. Some k' \<in> set (map d_task_id (documents db'))"
    proof
      fix k' assume "k' \<in> fst ` set ?dict'"
      then have "k' \<in> fst ` set (tasks_dict m)" and "k' \<noteq> k"
        by (auto simp: dict_delitem_def)
      with ks ids' show "Some k' \<in> set (map d_task_id (documents db'))" by auto
    qed
    from ml' dk' dl' en' sd' ks'
    have "repo_inv (m\<lparr>db_handler := db', tasks_dict := ?dict', task_list := ?list'\<rparr>)"
      by (simp add: repo_inv_def)
    with st show ?thesis by simp
  qed
qed

lemma repo_inv_run_operation: "repo_inv m \<Longrightarrow> repo_inv (run_operation m op)"
  by (cases op)
     (simp_all add: repo_inv_load repo_inv_add repo_inv_update repo_inv_mark_completed
        repo_inv_delete repo_inv_connectivity)

lemma repo_inv_foldl: "repo_inv m \<Longrightarrow> repo_inv (foldl run_operation m ops)"
  by (induction ops arbitrary: m) (simp_all add: repo_inv_run_operation)

text \<open>
  C9.  Start from a manager created over a store that holds no id twice, as the unique
  index on \<open>task_id\<close> guarantees, and make any sequence of calls of
  \<open>load_tasks_from_db\<close>, \<open>add_task\<close>, \<open>update_task\<close>, \<open>mark_completed\<close> and
  \<open>delete_task\<close>, with any arguments, whether they return or raise and whatever the
  connectivity of the store is in between.  After every call the dictionary and the list
  hold the same tasks: every task of the list is the object the dictionary holds under its
  id, every entry of the dictionary occurs in the list exactly once, and both have the
  same size; so \<open>get_task_count\<close> is the size of the dictionary and \<open>get_task\<close> finds,
  under its id, every task that \<open>get_all_tasks\<close> lists.
\<close>

theorem cache_agree_after_operations:
  assumes "distinct (map d_task_id (documents db))"
  shows "cache_agree (foldl run_operation (TaskManager_init db) ops)
       \<and> get_task_count (foldl run_operation (TaskManager_init db) ops)
           = length (tasks_dict (foldl run_operation (TaskManager_init db) ops))
       \<and> (\<forall>r \<in> set (get_all_tasks (foldl run_operation (TaskManager_init db) ops)).
             get_task (foldl run_operation (TaskManager_init db) ops)
               (task_id (objects (foldl run_operation (TaskManager_init db) ops) ! r))
             = Some r)"
proof -
  let ?m = "foldl run_operation (TaskManager_init db) ops"
  from assms have "repo_inv (TaskManager_init db)" by (rule repo_inv_init)
  then have "repo_inv ?m" by (rule repo_inv_foldl)
  then have agree: "cache_agree ?m" by (rule repo_inv_cache_agree)
  then have cnt: "get_task_count ?m = length (tasks_dict ?m)"
    by (simp add: cache_agree_def get_task_count_def)
  have "\<forall>r \<in> set (get_all_tasks ?m). get_task ?m (task_id (objects ?m ! r)) = Some r"
    using agree by (simp add: cache_agree_def get_all_tasks_def get_task_def)
  with agree cnt show ?thesis by blast
qed

theorem cache_agree_after_operations_witness:
  "distinct (map d_task_id (documents sample_db))
   \<and> cache_agree (foldl run_operation (TaskManager_init sample_db) sample_ops)
   \<and> tasks_dict (foldl run_operation (TaskManager_init sample_db) sample_ops)
       = [(''3f2a9c1e-5b7d-4e8a-9c0f-1a2b3c4d5e6f'', 0),
          (''c4e5f6a7-1b2c-4d3e-9f80-a1b2c3d4e5f6'', 2),
          (''9a8b7c6d-1111-4222-8333-444455556666'', 3)]"
proof -
  have d: "distinct (map d_task_id (documents sample_db))" by code_simp
  from cache_agree_after_operations[OF d, of sample_ops]
  have a: "cache_agree (foldl run_operation (TaskManager_init sample_db) sample_ops)"
    by blast
  have t: "tasks_dict (foldl run_operation (TaskManager_init sample_db) sample_ops)
       = [(''3f2a9c1e-5b7d-4e8a-9c0f-1a2b3c4d5e6f'', 0),
          (''c4e5f6a7-1b2c-4d3e-9f80-a1b2c3d4e5f6'', 2),
          (''9a8b7c6d-1111-4222-8333-444455556666'', 3)]"
    by code_simp
  from d a t show ?thesis by blast
qed

section \<open>The empty identifier\<close>

lemma str_startswith_Nil: "str_startswith s [] = True"
  by (cases s) simp_all

text \<open>
  C10, as the code has it.  On an empty cache \<open>get_task\<close> with the empty string returns
  not-found, and \<open>delete_task\<close>, \<open>update_task\<close> and \<open>mark_completed\<close> return \<open>False\<close>
  and change nothing.  On a cache that is not empty and holds no task whose id is the
  empty string, \<open>get_task\<close> with the empty string returns the earliest-inserted task,
  and \<open>delete_task\<close>, \<open>update_task\<close> and \<open>mark_completed\<close> addressed by the empty
  string do exactly what they do when addressed by the id of that task.  If some cached
  id is the empty string, the exact lookup comes first: \<open>get_task\<close> with the empty string
  returns the task cached under it, whatever its position in the cache.
\<close>

theorem get_task_empty_identifier:
  "(tasks_dict m = [] \<longrightarrow>
        get_task m [] = None
      \<and> delete_task m [] = (Inr False, m)
      \<and> update_task m [] ttl descr due prio stat = (Inr False, m)
      \<and> mark_completed m [] = (Inr False, m))
   \<and> (\<forall>k r rest. tasks_dict m = (k, r) # rest \<and> [] \<notin> fst ` set (tasks_dict m) \<longrightarrow>
        get_task m [] = Some r
      \<and> get_task m k = Some r
      \<and> delete_task m [] = delete_task m k
      \<and> update_task m [] ttl descr due prio stat = update_task m k ttl descr due prio stat
      \<and> mark_completed m [] = mark_completed m k)
   \<and> (\<forall>i r. i < length (tasks_dict m) \<and> tasks_dict m ! i = ([], r)
          \<and> distinct (map fst (tasks_dict m)) \<longrightarrow>
        get_task m [] = Some r)"
proof (intro conjI allI impI)
  assume e: "tasks_dict m = []"
  then show g: "get_task m [] = None" by (simp add: get_task_def)
  then show "delete_task m [] = (Inr False, m)" by (simp add: delete_task_def)
  from g show u: "update_task m [] ttl descr due prio stat = (Inr False, m)"
    by (simp add: update_task_def)
  from g show "mark_completed m [] = (Inr False, m)"
    by (simp add: mark_completed_def update_task_def)
next
  fix k r rest
  assume h: "tasks_dict m = (k, r) # rest \<and> [] \<notin> fst ` set (tasks_dict m)"
  then have "[] \<notin> fst ` set (tasks_dict m)" by blast
  then have "map_of (tasks_dict m) [] = None"
    by (simp only: map_of_eq_None_iff not_False_eq_True)
  with h show g0: "get_task m [] = Some r"
    by (simp add: get_task_def str_lower_def str_startswith_Nil)
  from h show gk: "get_task m k = Some r" by (simp add: get_task_def)
  from g0 gk show "delete_task m [] = delete_task m k" by (simp add: delete_task_def)
  from g0 gk show "update_task m [] ttl descr due prio stat
      = update_task m k ttl descr due prio stat"
    by (simp add: update_task_def)
  from g0 gk show "mark_completed m [] = mark_completed m k"
    by (simp add: mark_completed_def update_task_def)
next
  fix i r
  assume h: "i < length (tasks_dict m) \<and> tasks_dict m ! i = ([], r)
          \<and> distinct (map fst (tasks_dict m))"
  then have "([], r) \<in> set (tasks_dict m)" by (metis nth_mem)
  with h have "map_of (tasks_dict m) [] = Some r" by simp
  then show "get_task m [] = Some r" by (simp add: get_task_def)
qed

theorem get_task_empty_identifier_witness:
  "tasks_dict (TaskManager_init sample_db) = []
   \<and> get_task (TaskManager_init sample_db) [] = None
   \<and> tasks_dict sample_manager
       = (''3f2a9c1e-5b7d-4e8a-9c0f-1a2b3c4d5e6f'', 0) # tl (tasks_dict sample_manager)
   \<and> [] \<notin> fst ` set (tasks_dict sample_manager)
   \<and> get_task sample_manager [] = Some 0
   \<and> task_list (snd (delete_task sample_manager [])) = [1, 2]
   \<and> map d_task_id (documents (db_handler (snd (delete_task sample_manager []))))
       = [Some ''b81d4c02-77aa-4f10-8e3b-0d9c8b7a6f5e'',
          Some ''c4e5f6a7-1b2c-4d3e-9f80-a1b2c3d4e5f6'']
   \<and> status (objects (snd (mark_completed sample_manager [])) ! 0) = ''Completed''
   \<and> 1 < length (tasks_dict blank_id_manager) \<and> tasks_dict blank_id_manager ! 1 = ([], 1)
   \<and> distinct (map fst (tasks_dict blank_id_manager))
   \<and> get_task blank_id_manager [] = Some 1"
proof -
  have p: "1 < length (tasks_dict blank_id_manager) \<and> tasks_dict blank_id_manager ! 1 = ([], 1)
      \<and> distinct (map fst (tasks_dict blank_id_manager))"
    by (simp add: blank_id_manager_def)
  from get_task_empty_identifier[of blank_id_manager None None None None None] p
  have q: "get_task blank_id_manager [] = Some 1" by blast
  note empty = get_task_empty_identifier[of "TaskManager_init sample_db" None None None None None]
  note full = get_task_empty_identifier[of sample_manager None None None None None]
  have e: "tasks_dict (TaskManager_init sample_db) = []" by (simp add: TaskManager_init_def)
  with empty have n: "get_task (TaskManager_init sample_db) [] = None" by blast
  have h: "tasks_dict sample_manager
       = (''3f2a9c1e-5b7d-4e8a-9c0f-1a2b3c4d5e6f'', 0) # tl (tasks_dict sample_manager)
     \<and> [] \<notin> fst ` set (tasks_dict sample_manager)"
    by (simp add: sample_manager_def)
  with full have g: "get_task sample_manager [] = Some 0"
    and dl: "delete_task sample_manager []
        = delete_task sample_manager ''3f2a9c1e-5b7d-4e8a-9c0f-1a2b3c4d5e6f''"
    and mc: "mark_completed sample_manager []
        = mark_completed sample_manager ''3f2a9c1e-5b7d-4e8a-9c0f-1a2b3c4d5e6f''"
    by blast+
  have "task_list (snd (delete_task sample_manager
      ''3f2a9c1e-5b7d-4e8a-9c0f-1a2b3c4d5e6f'')) = [1, 2]"
    by code_simp
  with dl have d1: "task_list (snd (delete_task sample_manager [])) = [1, 2]" by simp
  have "map d_task_id (documents (db_handler (snd (delete_task sample_manager
      ''3f2a9c1e-5b7d-4e8a-9c0f-1a2b3c4d5e6f''))))
       = [Some ''b81d4c02-77aa-4f10-8e3b-0d9c8b7a6f5e'',
          Some ''c4e5f6a7-1b2c-4d3e-9f80-a1b2c3d4e5f6'']"
    by code_simp
  with dl have d2: "map d_task_id (documents (db_handler (snd (delete_task sample_manager []))))
       = [Some ''b81d4c02-77aa-4f10-8e3b-0d9c8b7a6f5e'',
          Some ''c4e5f6a7-1b2c-4d3e-9f80-a1b2c3d4e5f6'']"
    by simp
  have "status (objects (snd (mark_completed sample_manager
      ''3f2a9c1e-5b7d-4e8a-9c0f-1a2b3c4d5e6f'')) ! 0) = ''Completed''"
    by code_simp
  with mc have m1: "status (objects (snd (mark_completed sample_manager [])) ! 0) = ''Completed''"
    by simp
  from e n h g d1 d2 m1 p q show ?thesis by blast
qed

text \<open>
  C10 as stated fails: after loading a store whose second document has the empty string
  as its id, \<open>get_task\<close> with the empty string finds that task by the exact lookup, not
  the earliest-inserted one.
\<close>

theorem get_task_empty_identifier_exact_match:
  "load_tasks_from_db sample_clock (TaskManager_init blank_id_db) = (Inr True, blank_id_manager)
   \<and> task_list blank_id_manager = [0, 1]
   \<and> get_task blank_id_manager [] = Some 1"
  by code_simp

end
